theory Spec2Isabelle
  imports
    Complex_Main
    "HOL-Library.Char_ord"
    "HOL-Library.List_Lexorder"
    "HOL-Library.Product_Lexorder"
    "HOL-Library.Multiset"
    "HOL-Library.Log_Nat"
begin

section \<open>Data model\<close>

text \<open>
  The feature-engineering module works on a pandas DataFrame of security events. A frame is
  modelled by the names of the columns it carries, the dtype test that
  \<^verbatim>\<open>add_user_activity_baseline\<close> makes on the timestamp column, and the list of its rows.

  A row is a record with one field for every column the module reads or writes:
  \<^item> \<open>event_id\<close>, \<open>user_id\<close>, \<open>severity\<close>: strings, never null (the cleaning stage drops or
    fills null cells before the module runs);
  \<^item> \<open>timestamp\<close>: the count of nanoseconds since the epoch, UTC, that a datetime64
    column stores, never NaT (the normalization stage drops such rows). It is an unbounded
    integer: two timestamps of one table are taken to be less than the 292 years apart at
    which their int64 difference would overflow;
  \<^item> \<open>Float64\<close> columns: \<open>rat option\<close>, where \<open>None\<close> is the missing value \<^verbatim>\<open><NA>\<close>/NaN. A
    number of seconds is the float64 value that \<^verbatim>\<open>total_seconds\<close> computes, as a rational
    (see \<open>float64\<close> below); the mean of the daily-rate stage is kept exact;
  \<^item> an integer column that comes out of a left merge: \<open>int option\<close>, \<open>None\<close> for a row
    without a partner.

  The field of a column that \<open>columns\<close> does not list is never read: every function below
  checks the name first and returns the \<^verbatim>\<open>KeyError\<close> that pandas raises. Columns under other
  names (event_type, status, source_ip, ...) occur by name only.
\<close>

datatype error =
    KeyError string   \<comment> \<open>a column that the frame does not have\<close>
  | NotDatetimeLike   \<comment> \<open>\<^verbatim>\<open>.diff()\<close> or \<^verbatim>\<open>.dt\<close> on a timestamp column that is not datetime-like\<close>

record event =
  event_id :: string
  user_id :: string
  timestamp :: int
  severity :: string
  severity_score :: "rat option"
  user_event_count_total :: int
  user_daily_avg_events :: "rat option"
  session_id :: int
  session_event_count :: "int option"
  session_duration_seconds :: "rat option"

text \<open>
  \<open>timestamp_is_datetime\<close> is the value of \<^verbatim>\<open>is_datetime64_any_dtype(df["timestamp"])\<close>.
  Where it is false the column holds what the CSV reader produced (text or numbers), on
  which \<^verbatim>\<open>.diff()\<close> or the \<^verbatim>\<open>.dt\<close> accessor raise.
\<close>

record frame =
  columns :: "string list"
  timestamp_is_datetime :: bool
  rows :: "event list"

text \<open>\<^verbatim>\<open>df[c] = values\<close>: an existing column is overwritten in place, a new one is appended.\<close>

definition assign :: "string \<Rightarrow> string list \<Rightarrow> string list" where
  "assign c cs = (if c \<in> set cs then cs else cs @ [c])"

section \<open>Severity Scorer\<close>

definition sev_to_score :: "string \<rightharpoonup> int" where
  "sev_to_score =
     [''info'' \<mapsto> 0, ''low'' \<mapsto> 1, ''medium'' \<mapsto> 2, ''high'' \<mapsto> 3, ''critical'' \<mapsto> 4]"

text \<open>
  \<^verbatim>\<open>df["severity"].map(sev_to_score).astype("Float64")\<close>: a label that is not a key of the
  dictionary maps to NaN, which the cast turns into \<^verbatim>\<open><NA>\<close>.
\<close>

definition score_of :: "string \<Rightarrow> rat option" where
  "score_of s = map_option of_int (sev_to_score s)"

definition add_severity_score :: "frame \<Rightarrow> error + frame" where
  "add_severity_score df =
     (if ''severity'' \<notin> set (columns df) then Inl (KeyError ''severity'')
      else Inr (df\<lparr>columns := assign ''severity_score'' (columns df),
                   rows := map (\<lambda>r. r\<lparr>severity_score := score_of (severity r)\<rparr>) (rows df)\<rparr>))"

section \<open>Grouping and joining\<close>

text \<open>
  \<^verbatim>\<open>groupby(key)\<close>: the group keys are the distinct key values in ascending order, and the
  group of a key holds the rows with that key in table order.
\<close>

definition group_keys :: "('a \<Rightarrow> 'k::linorder) \<Rightarrow> 'a list \<Rightarrow> 'k list" where
  "group_keys key xs = sort (remdups (map key xs))"

definition group_of :: "('a \<Rightarrow> 'k) \<Rightarrow> 'a list \<Rightarrow> 'k \<Rightarrow> 'a list" where
  "group_of key xs k = filter (\<lambda>x. key x = k) xs"

text \<open>
  \<^verbatim>\<open>left.merge(right, on=key, how="left")\<close>: every left row, in the order of the left table,
  once for each right row with the same key, or once with missing values when no right row
  has its key.
\<close>

definition merge_left ::
  "('l \<Rightarrow> 'k) \<Rightarrow> ('r \<Rightarrow> 'k) \<Rightarrow> ('l \<Rightarrow> 'r option \<Rightarrow> 'o) \<Rightarrow> 'l list \<Rightarrow> 'r list \<Rightarrow> 'o list" where
  "merge_left lkey rkey combine left right =
     concat (map (\<lambda>l. case filter (\<lambda>r. rkey r = lkey l) right of
                         [] \<Rightarrow> [combine l None]
                       | ms \<Rightarrow> map (\<lambda>r. combine l (Some r)) ms) left)"

text \<open>
  The column names of a merge: a name that both tables have and that is not a join key gets
  the suffix \<^verbatim>\<open>_x\<close> on the left and \<^verbatim>\<open>_y\<close> on the right.
\<close>

definition merge_columns :: "string list \<Rightarrow> string list \<Rightarrow> string list \<Rightarrow> string list" where
  "merge_columns on left right =
     map (\<lambda>c. if c \<in> set right \<and> c \<notin> set on then c @ ''_x'' else c) left @
     map (\<lambda>c. if c \<in> set left then c @ ''_y'' else c) (filter (\<lambda>c. c \<notin> set on) right)"

section \<open>User Frequency Aggregator\<close>

text \<open>
  \<^verbatim>\<open>df.groupby("user_id")["event_id"].transform("count")\<close>: for every row, the number of
  rows of its user (no \<open>event_id\<close> is null).
\<close>

definition transform_count :: "event list \<Rightarrow> event \<Rightarrow> int" where
  "transform_count rs r = int (length (group_of user_id rs (user_id r)))"

definition add_user_event_frequency :: "frame \<Rightarrow> error + frame" where
  "add_user_event_frequency df =
     (if ''user_id'' \<notin> set (columns df) then Inr df
      else if ''event_id'' \<notin> set (columns df) then Inl (KeyError ''event_id'')
      else Inr (df\<lparr>columns := assign ''user_event_count_total'' (columns df),
                   rows := map (\<lambda>r. r\<lparr>user_event_count_total := transform_count (rows df) r\<rparr>)
                             (rows df)\<rparr>))"

section \<open>User Daily-Rate Aggregator\<close>

definition ns_per_day :: int where
  "ns_per_day = 86400 * 1000000000"

text \<open>\<^verbatim>\<open>.dt.floor("D")\<close>: the midnight at or before the timestamp.\<close>

definition floor_D :: "int \<Rightarrow> int" where
  "floor_D t = (t div ns_per_day) * ns_per_day"

definition user_date :: "event \<Rightarrow> string \<times> int" where
  "user_date r = (user_id r, floor_D (timestamp r))"

text \<open>\<^verbatim>\<open>tmp.groupby(["user_id", "date"], as_index=False).size()\<close>: rows (user_id, date, size).\<close>

definition daily_counts :: "event list \<Rightarrow> (string \<times> int \<times> nat) list" where
  "daily_counts tmp =
     map (\<lambda>k. (fst k, snd k, length (group_of user_date tmp k))) (group_keys user_date tmp)"

text \<open>\<^verbatim>\<open>.mean()\<close> of a group of sizes; NaN for no values.\<close>

definition mean :: "nat list \<Rightarrow> rat option" where
  "mean xs = (if xs = [] then None else Some (of_nat (sum_list xs) / of_nat (length xs)))"

text \<open>
  \<^verbatim>\<open>daily_counts.groupby("user_id", as_index=False)["size"].mean()\<close>, renamed: rows
  (user_id, user_daily_avg_events).
\<close>

definition avg_per_user :: "(string \<times> int \<times> nat) list \<Rightarrow> (string \<times> rat option) list" where
  "avg_per_user dc =
     map (\<lambda>u. (u, mean (map (\<lambda>c. snd (snd c)) (group_of fst dc u)))) (group_keys fst dc)"

text \<open>
  When the table already has a column \<^verbatim>\<open>user_daily_avg_events\<close>, the merge renames both
  columns of that name, and the cast on the line after it finds no column to read.
\<close>

definition add_user_activity_baseline :: "frame \<Rightarrow> error + frame" where
  "add_user_activity_baseline df =
     (if ''timestamp'' \<notin> set (columns df) \<or> \<not> timestamp_is_datetime df then Inr df
      else if ''user_id'' \<notin> set (columns df) then Inl (KeyError ''user_id'')
      else
        let merged = merge_columns [''user_id''] (columns df)
                       [''user_id'', ''user_daily_avg_events'']
        in if ''user_daily_avg_events'' \<notin> set merged
           then Inl (KeyError ''user_daily_avg_events'')
           else Inr (df\<lparr>columns := merged,
                        rows := merge_left user_id fst
                                  (\<lambda>r m. r\<lparr>user_daily_avg_events :=
                                             (case m of None \<Rightarrow> None | Some a \<Rightarrow> snd a)\<rparr>)
                                  (rows df) (avg_per_user (daily_counts (rows df)))\<rparr>))"

section \<open>Session Segmenter and Session Aggregator\<close>

text \<open>
  \<^verbatim>\<open>df.sort_values(["user_id", "timestamp"])\<close>: pandas sorts on several keys with a stable
  lexicographic sort; \<open>sort_key\<close> is the stable insertion sort of the list library, on the
  pair of keys. Strings compare character by character.
\<close>

definition sort_values :: "event list \<Rightarrow> event list" where
  "sort_values rs = sort_key (\<lambda>r. (user_id r, timestamp r)) rs"

text \<open>
  \<^verbatim>\<open>df.groupby("user_id")["timestamp"].diff()\<close>: one pass over the rows in table order that
  remembers, for every user, the timestamp of the user's row before; the first row of a user
  has no difference (NaT).
\<close>

fun groupby_diff :: "(string \<rightharpoonup> int) \<Rightarrow> event list \<Rightarrow> int option list" where
  "groupby_diff prev [] = []"
| "groupby_diff prev (r # rs) =
     map_option (\<lambda>p. timestamp r - p) (prev (user_id r))
       # groupby_diff (prev(user_id r \<mapsto> timestamp r)) rs"

text \<open>
  The float column \<^verbatim>\<open>_time_diff_sec\<close>: \<^verbatim>\<open>.dt.total_seconds()\<close> keeps a missing difference
  missing, and \<^verbatim>\<open>.fillna(np.inf)\<close> replaces it by positive infinity.
\<close>

datatype seconds = Finite rat | Infinity

text \<open>
  Binary64 arithmetic. \<open>float64 x\<close> is the float64 number nearest to \<open>x\<close>, ties going to the
  even significand of 53 bits: with \<open>2 ^ e \<le> \<bar>x\<bar> < 2 ^ (e + 1)\<close> the neighbours of \<open>x\<close> are
  the multiples of \<open>2 ^ (e - 52)\<close>. The exponent is not bounded: the quotients below are
  either 0 or between \<open>10 ^ -9\<close> and \<open>2 ^ 64\<close>, far from where float64 overflows or loses
  bits to subnormal numbers.
\<close>

definition pow2 :: "int \<Rightarrow> rat" where
  "pow2 e = 2 powi e"

definition exponent :: "rat \<Rightarrow> int" where
  "exponent x =
     (let k = bitlen (fst (quotient_of x)) - bitlen (snd (quotient_of x))
      in if pow2 k \<le> x then k else k - 1)"

definition round_half_even :: "rat \<Rightarrow> int" where
  "round_half_even q =
     (let f = \<lfloor>q\<rfloor>; r = q - of_int f
      in if r < 1 / 2 then f else if 1 / 2 < r then f + 1 else if even f then f else f + 1)"

definition float64 :: "rat \<Rightarrow> rat" where
  "float64 x =
     (if x = 0 then 0
      else let u = pow2 (exponent \<bar>x\<bar> - 52)
           in sgn x * of_int (round_half_even (\<bar>x\<bar> / u)) * u)"

text \<open>
  \<^verbatim>\<open>.dt.total_seconds()\<close> on nanosecond differences, which pandas 2 computes as
  \<^verbatim>\<open>asi8 / 1_000_000_000\<close>: the int64 count is converted to float64 and the division is
  the float64 division, each rounded to nearest.
\<close>

definition total_seconds :: "int \<Rightarrow> rat" where
  "total_seconds ns = float64 (float64 (of_int ns) / 1000000000)"

definition fillna_inf :: "rat option \<Rightarrow> seconds" where
  "fillna_inf d = (case d of None \<Rightarrow> Infinity | Some s \<Rightarrow> Finite s)"

definition time_diff_sec :: "event list \<Rightarrow> seconds list" where
  "time_diff_sec rs = map (\<lambda>d. fillna_inf (map_option total_seconds d)) (groupby_diff Map.empty rs)"

text \<open>
  \<^verbatim>\<open>df["_time_diff_sec"] > gap_seconds\<close>: the integer \<^verbatim>\<open>gap_seconds\<close> is compared as a float64
  with the float64 column.
\<close>

fun exceeds :: "seconds \<Rightarrow> int \<Rightarrow> bool" where
  "exceeds Infinity gap_seconds = True"
| "exceeds (Finite s) gap_seconds = (s > float64 (of_int gap_seconds))"

text \<open>
  \<^verbatim>\<open>new_session.groupby(df["user_id"]).cumsum()\<close>: one pass that keeps, for every user, the
  number of \<^verbatim>\<open>True\<close> values seen so far.
\<close>

fun groupby_cumsum :: "(string \<Rightarrow> int) \<Rightarrow> (string \<times> bool) list \<Rightarrow> int list" where
  "groupby_cumsum acc [] = []"
| "groupby_cumsum acc ((u, b) # xs) =
     (let c = acc u + (if b then 1 else 0) in c # groupby_cumsum (acc(u := c)) xs)"

definition new_session :: "int \<Rightarrow> event list \<Rightarrow> bool list" where
  "new_session gap_minutes rs = map (\<lambda>d. exceeds d (gap_minutes * 60)) (time_diff_sec rs)"

definition session_ids :: "int \<Rightarrow> event list \<Rightarrow> int list" where
  "session_ids gap_minutes rs =
     groupby_cumsum (\<lambda>u. 0) (zip (map user_id rs) (new_session gap_minutes rs))"

definition with_session_id :: "int \<Rightarrow> event list \<Rightarrow> event list" where
  "with_session_id gap_minutes rs =
     map (\<lambda>(r, i). r\<lparr>session_id := i\<rparr>) (zip rs (session_ids gap_minutes rs))"

text \<open>
  \<^verbatim>\<open>df.groupby(["user_id", "session_id"]).agg(...).reset_index()\<close>: one row for every
  (user_id, session_id) with the count of its rows, the earliest and the latest timestamp.
\<close>

record sess_stat =
  s_user_id :: string
  s_session_id :: int
  s_event_count :: int
  session_start :: int
  session_end :: int

definition user_session :: "event \<Rightarrow> string \<times> int" where
  "user_session r = (user_id r, session_id r)"

definition sess_stats :: "event list \<Rightarrow> sess_stat list" where
  "sess_stats rs =
     map (\<lambda>k. let g = group_of user_session rs k in
               \<lparr>s_user_id = fst k, s_session_id = snd k,
                s_event_count = int (length g),
                session_start = Min (set (map timestamp g)),
                session_end = Max (set (map timestamp g))\<rparr>)
         (group_keys user_session rs)"

definition duration_seconds :: "sess_stat \<Rightarrow> rat option" where
  "duration_seconds s = Some (total_seconds (session_end s - session_start s))"

text \<open>
  The merge writes the two aggregates of the partner row into the fields
  \<open>session_event_count\<close> and \<open>session_duration_seconds\<close>. (Should the table come with columns
  under these names, pandas keeps the old cells under the suffix \<^verbatim>\<open>_x\<close> and the aggregates
  under \<^verbatim>\<open>_y\<close>; the fields then hold the aggregates.)
\<close>

definition join_stats :: "event \<Rightarrow> sess_stat option \<Rightarrow> event" where
  "join_stats r m =
     (case m of
        None \<Rightarrow> r\<lparr>session_event_count := None, session_duration_seconds := None\<rparr>
      | Some s \<Rightarrow> r\<lparr>session_event_count := Some (s_event_count s),
                    session_duration_seconds := duration_seconds s\<rparr>)"

definition add_session_features :: "frame \<Rightarrow> int \<Rightarrow> error + frame" where
  "add_session_features df gap_minutes =
     (if ''timestamp'' \<notin> set (columns df) then Inr df
      else if ''user_id'' \<notin> set (columns df) then Inl (KeyError ''user_id'')
      else if \<not> timestamp_is_datetime df then Inl NotDatetimeLike
      else if ''event_id'' \<notin> set (columns df) then Inl (KeyError ''event_id'')
      else
        let sorted_rows = sort_values (rows df);
            cols = filter (\<lambda>c. c \<noteq> ''_time_diff_sec'')
                     (assign ''session_id'' (assign ''_time_diff_sec'' (columns df)));
            with_ids = with_session_id gap_minutes sorted_rows
        in Inr (df\<lparr>columns := merge_columns [''user_id'', ''session_id''] cols
                                 [''user_id'', ''session_id'', ''session_event_count'',
                                  ''session_duration_seconds''],
                     rows := merge_left user_session (\<lambda>s. (s_user_id s, s_session_id s))
                               join_stats with_ids (sess_stats with_ids)\<rparr>))"

section \<open>The core\<close>

definition and_then :: "error + 'a \<Rightarrow> ('a \<Rightarrow> error + 'b) \<Rightarrow> error + 'b" where
  "and_then r f = (case r of Inl e \<Rightarrow> Inl e | Inr x \<Rightarrow> f x)"

definition run_all :: "frame \<Rightarrow> int \<Rightarrow> error + frame" where
  "run_all df gap_minutes =
     and_then (and_then (and_then (add_severity_score df) add_user_event_frequency)
                 add_user_activity_baseline)
       (\<lambda>df. add_session_features df gap_minutes)"

section \<open>Notions used in the statements\<close>

text \<open>The columns that each stage needs in order to compute (rather than skip or raise).\<close>

definition session_ready :: "frame \<Rightarrow> bool" where
  "session_ready df \<longleftrightarrow>
     ''timestamp'' \<in> set (columns df) \<and> ''user_id'' \<in> set (columns df) \<and>
     ''event_id'' \<in> set (columns df) \<and> timestamp_is_datetime df"

definition baseline_ready :: "frame \<Rightarrow> bool" where
  "baseline_ready df \<longleftrightarrow>
     ''timestamp'' \<in> set (columns df) \<and> timestamp_is_datetime df \<and>
     ''user_id'' \<in> set (columns df) \<and> ''user_daily_avg_events'' \<notin> set (columns df)"

definition input_columns :: "string list" where
  "input_columns = [''event_id'', ''timestamp'', ''user_id'', ''severity'']"


text \<open>
  A valid input that, in addition, does not yet carry a column under the name
  \<^verbatim>\<open>user_daily_avg_events\<close>, which the daily-rate stage adds by a merge.
\<close>

definition valid_input :: "frame \<Rightarrow> bool" where
  "valid_input df \<longleftrightarrow>
     set input_columns \<subseteq> set (columns df) \<and> timestamp_is_datetime df \<and>
     distinct (map event_id (rows df)) \<and> ''user_daily_avg_events'' \<notin> set (columns df)"


text \<open>The cells of a row in the input columns, and in all columns but the session ones.\<close>

definition event_cells :: "event \<Rightarrow> string \<times> string \<times> int \<times> string" where
  "event_cells r = (event_id r, user_id r, timestamp r, severity r)"

definition carried_cells ::
  "event \<Rightarrow> (string \<times> string \<times> int \<times> string) \<times> rat option \<times> int \<times> rat option" where
  "carried_cells r =
     (event_cells r, severity_score r, user_event_count_total r, user_daily_avg_events r)"

text \<open>
  The cells of a column, given as a list aligned with the rows, that belong to the rows of
  one user.
\<close>

definition of_user :: "string \<Rightarrow> (event \<times> 'a) list \<Rightarrow> 'a list" where
  "of_user u ps = map snd (filter (\<lambda>p. user_id (fst p) = u) ps)"

text \<open>
  What the two grouped passes compute on the rows of a single user: differences of
  neighbours, the session-start indicator, and the running count of starts.
\<close>

fun diffs :: "int option \<Rightarrow> int list \<Rightarrow> int option list" where
  "diffs p [] = []"
| "diffs p (t # ts) = map_option (\<lambda>q. t - q) p # diffs (Some t) ts"

fun cumsum :: "int \<Rightarrow> bool list \<Rightarrow> int list" where
  "cumsum c [] = []"
| "cumsum c (b # bs) = (c + (if b then 1 else 0)) # cumsum (c + (if b then 1 else 0)) bs"

definition starts :: "int \<Rightarrow> int option list \<Rightarrow> bool list" where
  "starts g ds = map (\<lambda>d. exceeds (fillna_inf (map_option total_seconds d)) (g * 60)) ds"

definition later_ids :: "int \<Rightarrow> int \<Rightarrow> int \<Rightarrow> int list \<Rightarrow> int list" where
  "later_ids g c p ts = cumsum c (starts g (diffs (Some p) ts))"

text \<open>The values that the two merges attach to a row.\<close>

definition daily_avg :: "event list \<Rightarrow> string \<Rightarrow> rat option" where
  "daily_avg rs u = mean (map (\<lambda>c. snd (snd c)) (group_of fst (daily_counts rs) u))"

definition session_span :: "event list \<Rightarrow> event \<Rightarrow> int" where
  "session_span rs r =
     Max (set (map timestamp (group_of user_session rs (user_session r)))) -
     Min (set (map timestamp (group_of user_session rs (user_session r))))"

definition aggregate :: "event list \<Rightarrow> event \<Rightarrow> event" where
  "aggregate rs r =
     r\<lparr>session_event_count := Some (int (length (group_of user_session rs (user_session r)))),
       session_duration_seconds := Some (total_seconds (session_span rs r))\<rparr>"

definition segmented :: "int \<Rightarrow> event list \<Rightarrow> event list" where
  "segmented g rs =
     map (aggregate (with_session_id g (sort_values rs))) (with_session_id g (sort_values rs))"

section \<open>Example tables\<close>

definition mk_event :: "string \<Rightarrow> string \<Rightarrow> int \<Rightarrow> string \<Rightarrow> event" where
  "mk_event e u t s =
     \<lparr>event_id = e, user_id = u, timestamp = t, severity = s, severity_score = None,
      user_event_count_total = 0, user_daily_avg_events = None, session_id = 0,
      session_event_count = None, session_duration_seconds = None\<rparr>"

text \<open>Severities info, high, unknown, critical.\<close>

definition severity_example :: frame where
  "severity_example =
     \<lparr>columns = input_columns, timestamp_is_datetime = True,
      rows = [mk_event ''e1'' ''u'' 0 ''info'', mk_event ''e2'' ''u'' 1 ''high'',
              mk_event ''e3'' ''u'' 2 ''unknown'', mk_event ''e4'' ''u'' 3 ''critical'']\<rparr>"

text \<open>One user with events at 00:00, 00:20 and 01:05.\<close>

definition scenario :: frame where
  "scenario =
     \<lparr>columns = input_columns, timestamp_is_datetime = True,
      rows = [mk_event ''e1'' ''u'' 0 ''info'',
              mk_event ''e2'' ''u'' 1200000000000 ''high'',
              mk_event ''e3'' ''u'' 3900000000000 ''low'']\<rparr>"

text \<open>The same events with the latest one in the first row.\<close>

definition order_example :: frame where
  "order_example =
     \<lparr>columns = input_columns, timestamp_is_datetime = True,
      rows = [mk_event ''e3'' ''u'' 3900000000000 ''low'', mk_event ''e1'' ''u'' 0 ''info'',
              mk_event ''e2'' ''u'' 1200000000000 ''high'']\<rparr>"

text \<open>
  Events of user u exactly 30 minutes apart, then 30 minutes and one nanosecond apart; one
  event of another user.
\<close>

definition gap_example :: frame where
  "gap_example =
     \<lparr>columns = input_columns, timestamp_is_datetime = True,
      rows = [mk_event ''g1'' ''u'' 0 ''info'',
              mk_event ''g2'' ''u'' 1800000000000 ''info'',
              mk_event ''g3'' ''u'' 3600000000001 ''info'',
              mk_event ''g4'' ''a'' 5 ''info'']\<rparr>"

text \<open>
  Two events of one user that are 104 days, 6 hours and one nanosecond apart: one nanosecond
  more than 150120 minutes.
\<close>

definition far_gap_example :: frame where
  "far_gap_example =
     \<lparr>columns = input_columns, timestamp_is_datetime = True,
      rows = [mk_event ''f1'' ''u'' 0 ''info'',
              mk_event ''f2'' ''u'' 9007200000000001 ''info'']\<rparr>"


text \<open>Two events of one user at the same instant, after them an earlier one.\<close>

definition tie_example :: frame where
  "tie_example =
     \<lparr>columns = input_columns, timestamp_is_datetime = True,
      rows = [mk_event ''x2'' ''u'' 100 ''info'', mk_event ''x1'' ''u'' 100 ''low'',
              mk_event ''x0'' ''u'' 50 ''high'']\<rparr>"

text \<open>
  User u1 with three events on the first day and one on the second, user u2 with three
  events on a single day.
\<close>

definition daily_example :: frame where
  "daily_example =
     \<lparr>columns = input_columns, timestamp_is_datetime = True,
      rows = [mk_event ''d1'' ''u1'' 0 ''info'',
              mk_event ''d2'' ''u1'' 86400000000000 ''info'',
              mk_event ''d3'' ''u2'' 7 ''info'',
              mk_event ''d4'' ''u1'' 3600000000000 ''info'',
              mk_event ''d5'' ''u1'' 86399999999999 ''info'',
              mk_event ''d6'' ''u2'' 8 ''info'',
              mk_event ''d7'' ''u2'' 9 ''info'']\<rparr>"

text \<open>Tables that lack a column, or whose timestamps were not parsed.\<close>

definition no_user_example :: frame where
  "no_user_example =
     \<lparr>columns = [''event_id'', ''timestamp'', ''severity''], timestamp_is_datetime = True,
      rows = [mk_event ''e1'' [] 0 ''info'']\<rparr>"

definition no_timestamp_example :: frame where
  "no_timestamp_example =
     \<lparr>columns = [''event_id'', ''user_id'', ''severity''], timestamp_is_datetime = False,
      rows = [mk_event ''e1'' ''u'' 0 ''info'']\<rparr>"

definition text_timestamp_example :: frame where
  "text_timestamp_example =
     \<lparr>columns = input_columns, timestamp_is_datetime = False,
      rows = [mk_event ''e1'' ''u'' 0 ''info'']\<rparr>"

definition no_severity_example :: frame where
  "no_severity_example =
     \<lparr>columns = [''event_id'', ''timestamp'', ''user_id''], timestamp_is_datetime = True,
      rows = [mk_event ''e1'' ''u'' 0 ''info'']\<rparr>"

section \<open>Severity Scorer: the lookup\<close>

lemma score_of_cases:
  "score_of s =
     (if s = ''info'' then Some 0 else if s = ''low'' then Some 1
      else if s = ''medium'' then Some 2 else if s = ''high'' then Some 3
      else if s = ''critical'' then Some 4 else None)"
  by (simp add: score_of_def sev_to_score_def)

text \<open>
  C4. On a table with a severity column the Severity Scorer returns a table (it raises
  nothing) whose severities are unchanged and whose \<open>severity_score\<close> is 0, 1, 2, 3, 4 for
  info, low, medium, high, critical and the missing value for every other label; the missing
  value is not the score 0.
\<close>

theorem severity_score_lookup:
  assumes "''severity'' \<in> set (columns df)"
  shows "\<exists>out. add_severity_score df = Inr out
           \<and> map severity (rows out) = map severity (rows df)
           \<and> (\<forall>r \<in> set (rows out).
                 severity_score r =
                   (if severity r = ''info'' then Some 0
                    else if severity r = ''low'' then Some 1
                    else if severity r = ''medium'' then Some 2
                    else if severity r = ''high'' then Some 3
                    else if severity r = ''critical'' then Some 4
                    else None)
                 \<and> (severity r \<notin> {''info'', ''low'', ''medium'', ''high'', ''critical''}
                      \<longrightarrow> severity_score r \<noteq> Some 0))"
  using assms by (auto simp: add_severity_score_def score_of_cases comp_def)

theorem severity_score_lookup_witness:
  "''severity'' \<in> set (columns severity_example)
   \<and> (\<exists>out. add_severity_score severity_example = Inr out
           \<and> map severity_score (rows out) = [Some 0, Some 3, None, Some 4])"
  using severity_score_lookup [of severity_example]
  by (simp add: severity_example_def input_columns_def add_severity_score_def score_of_cases
        mk_event_def)

section \<open>Missing columns: which stage skips and which raises\<close>

text \<open>
  C5, as stated, fails: the function of the Session Segmenter and the Session Aggregator
  has a pass-through of its own. On a table without a timestamp column it returns the table
  unchanged.
\<close>

theorem session_stage_passes_through_counterexample:
  "''timestamp'' \<notin> set (columns no_timestamp_example) \<and>
   add_session_features no_timestamp_example 30 = Inr no_timestamp_example"
  by (simp add: no_timestamp_example_def add_session_features_def)

text \<open>
  C5, amended. Three functions pass the table through unchanged on a missing column: the
  User Frequency Aggregator without \<open>user_id\<close>, the User Daily-Rate Aggregator without a
  temporal \<open>timestamp\<close>, and the session function without \<open>timestamp\<close>. The Severity
  Scorer has no such branch (without \<open>severity\<close> it raises), and the session function,
  once \<open>timestamp\<close> is there, has none for \<open>user_id\<close> or \<open>event_id\<close> (it raises).
\<close>

theorem fallback_stages:
  "(''user_id'' \<notin> set (columns a) \<longrightarrow> add_user_event_frequency a = Inr a) \<and>
   (''timestamp'' \<notin> set (columns b) \<or> \<not> timestamp_is_datetime b
      \<longrightarrow> add_user_activity_baseline b = Inr b) \<and>
   (''timestamp'' \<notin> set (columns c) \<longrightarrow> add_session_features c gap_minutes = Inr c) \<and>
   (''severity'' \<notin> set (columns d) \<longrightarrow> add_severity_score d = Inl (KeyError ''severity'')) \<and>
   (''timestamp'' \<in> set (columns e) \<and>
    (''user_id'' \<notin> set (columns e) \<or> ''event_id'' \<notin> set (columns e))
      \<longrightarrow> (\<exists>err. add_session_features e gap_minutes = Inl err))"
  by (auto simp: add_user_event_frequency_def add_user_activity_baseline_def
      add_session_features_def add_severity_score_def)

theorem fallback_stages_witness:
  "(''user_id'' \<notin> set (columns no_user_example) \<and>
      add_user_event_frequency no_user_example = Inr no_user_example) \<and>
   (\<not> timestamp_is_datetime text_timestamp_example \<and>
      add_user_activity_baseline text_timestamp_example = Inr text_timestamp_example) \<and>
   (''timestamp'' \<notin> set (columns no_timestamp_example) \<and>
      add_session_features no_timestamp_example 30 = Inr no_timestamp_example) \<and>
   (''severity'' \<notin> set (columns no_severity_example) \<and>
      add_severity_score no_severity_example = Inl (KeyError ''severity'')) \<and>
   (''timestamp'' \<in> set (columns no_user_example) \<and>
      ''user_id'' \<notin> set (columns no_user_example) \<and>
      (\<exists>err. add_session_features no_user_example 30 = Inl err))"
proof -
  have a: "''user_id'' \<notin> set (columns no_user_example)"
    and e: "''timestamp'' \<in> set (columns no_user_example)"
    by (simp_all add: no_user_example_def)
  have b: "\<not> timestamp_is_datetime text_timestamp_example"
    by (simp add: text_timestamp_example_def)
  have c: "''timestamp'' \<notin> set (columns no_timestamp_example)"
    by (simp add: no_timestamp_example_def)
  have d: "''severity'' \<notin> set (columns no_severity_example)"
    by (simp add: no_severity_example_def)
  show ?thesis
    using fallback_stages [of no_user_example text_timestamp_example no_timestamp_example 30
        no_severity_example no_user_example] a b c d e
    by blast
qed

text \<open>
  C10, as stated, fails: on a table with a temporal timestamp column and no \<open>user_id\<close> the
  daily-rate stage does not skip. It selects \<open>user_id\<close> after its test of the timestamp
  column and raises, so the first three stages alone already end in the error.
\<close>

theorem baseline_stage_raises_counterexample:
  "''timestamp'' \<in> set (columns no_user_example) \<and> timestamp_is_datetime no_user_example \<and>
   ''user_id'' \<notin> set (columns no_user_example) \<and>
   add_user_activity_baseline no_user_example = Inl (KeyError ''user_id'') \<and>
   and_then (and_then (add_severity_score no_user_example) add_user_event_frequency)
     add_user_activity_baseline = Inl (KeyError ''user_id'')"
  by (simp add: no_user_example_def add_user_activity_baseline_def add_severity_score_def
        add_user_event_frequency_def and_then_def assign_def)

text \<open>
  C10, amended. On every table with a temporal timestamp column and no \<open>user_id\<close> column
  the core raises instead of passing the table through, and so does the session function
  called on that table. When the table has a severity column, the Severity Scorer returns,
  the frequency stage skips, and the error is the \<^verbatim>\<open>KeyError\<close> for \<open>user_id\<close> that the
  daily-rate stage raises; the session function is not reached.
\<close>

theorem missing_user_id_raises:
  assumes "''timestamp'' \<in> set (columns df)" and "timestamp_is_datetime df"
    and "''user_id'' \<notin> set (columns df)"
  shows "(\<exists>err. run_all df gap_minutes = Inl err) \<and>
         add_session_features df gap_minutes = Inl (KeyError ''user_id'') \<and>
         (''severity'' \<in> set (columns df) \<longrightarrow>
            run_all df gap_minutes = Inl (KeyError ''user_id'') \<and>
            (\<exists>d1. add_severity_score df = Inr d1 \<and> add_user_event_frequency d1 = Inr d1 \<and>
                  add_user_activity_baseline d1 = Inl (KeyError ''user_id'')))"
proof (cases "''severity'' \<in> set (columns df)")
  case False
  then show ?thesis
    using assms by (simp add: run_all_def and_then_def add_severity_score_def
        add_session_features_def)
next
  case True
  define d1 where "d1 = df\<lparr>columns := assign ''severity_score'' (columns df),
      rows := map (\<lambda>r. r\<lparr>severity_score := score_of (severity r)\<rparr>) (rows df)\<rparr>"
  have s1: "add_severity_score df = Inr d1"
    using True by (simp add: add_severity_score_def d1_def)
  have cols: "''user_id'' \<notin> set (columns d1)" "''timestamp'' \<in> set (columns d1)"
      "timestamp_is_datetime d1"
    using assms by (auto simp: d1_def assign_def)
  have s2: "add_user_event_frequency d1 = Inr d1"
    using cols by (simp add: add_user_event_frequency_def)
  have s3: "add_user_activity_baseline d1 = Inl (KeyError ''user_id'')"
    using cols by (simp add: add_user_activity_baseline_def)
  have "run_all df gap_minutes = Inl (KeyError ''user_id'')"
    by (simp add: run_all_def and_then_def s1 s2 s3)
  moreover have "add_session_features df gap_minutes = Inl (KeyError ''user_id'')"
    using assms by (simp add: add_session_features_def)
  ultimately show ?thesis
    using s1 s2 s3 by blast
qed

theorem missing_user_id_raises_witness:
  "''timestamp'' \<in> set (columns no_user_example) \<and> timestamp_is_datetime no_user_example \<and>
   ''user_id'' \<notin> set (columns no_user_example) \<and>
   ''severity'' \<in> set (columns no_user_example) \<and>
   run_all no_user_example 30 = Inl (KeyError ''user_id'') \<and>
   add_session_features no_user_example 30 = Inl (KeyError ''user_id'')"
proof -
  have h: "''timestamp'' \<in> set (columns no_user_example)" "timestamp_is_datetime no_user_example"
      "''user_id'' \<notin> set (columns no_user_example)"
    and sev: "''severity'' \<in> set (columns no_user_example)"
    by (simp_all add: no_user_example_def)
  show ?thesis
    using missing_user_id_raises [OF h, of 30] h sev by blast
qed

section \<open>Grouping and joining: basic facts\<close>

lemma distinct_group_keys: "distinct (group_keys key xs)"
  by (simp add: group_keys_def)

lemma set_group_keys: "set (group_keys key xs) = key ` set xs"
  by (simp add: group_keys_def)

lemma group_of_map:
  assumes "\<And>x. key (f x) = key x"
  shows "group_of key (map f xs) k = map f (group_of key xs k)"
  by (simp add: group_of_def filter_map comp_def assms)

lemma filter_key_distinct:
  "distinct (map f xs) \<Longrightarrow>
     filter (\<lambda>x. f x = k) xs = (case find (\<lambda>x. f x = k) xs of None \<Rightarrow> [] | Some x \<Rightarrow> [x])"
proof (induction xs)
  case Nil
  then show ?case by simp
next
  case (Cons a xs)
  show ?case
  proof (cases "f a = k")
    case True
    from Cons.prems have "f a \<notin> f ` set xs" by simp
    with True have "\<forall>x \<in> set xs. f x \<noteq> k" by blast
    then have "filter (\<lambda>x. f x = k) xs = []"
      by (simp add: filter_empty_conv)
    with True show ?thesis by simp
  next
    case False
    with Cons show ?thesis by simp
  qed
qed

lemma merge_left_distinct:
  assumes "distinct (map rkey right)"
  shows "merge_left lkey rkey combine left right =
           map (\<lambda>l. combine l (find (\<lambda>r. rkey r = lkey l) right)) left"
proof -
  have "(case filter (\<lambda>r. rkey r = k) right of [] \<Rightarrow> [combine l None]
          | ms \<Rightarrow> map (\<lambda>r. combine l (Some r)) ms)
        = [combine l (find (\<lambda>r. rkey r = k) right)]" for l k
    by (simp add: filter_key_distinct [OF assms] split: option.splits)
  then show ?thesis
    by (simp add: merge_left_def)
qed

lemma find_map_inverse:
  assumes "k \<in> set ks" and "\<And>j. g (h j) = j"
  shows "find (\<lambda>y. g y = k) (map h ks) = Some (h k)"
  using assms(1) by (induction ks) (auto simp: assms(2))

section \<open>The two merges find exactly one partner\<close>

lemma length_groupby_diff [simp]: "length (groupby_diff prev rs) = length rs"
  by (induction rs arbitrary: prev) auto

lemma length_groupby_cumsum [simp]: "length (groupby_cumsum acc xs) = length xs"
  by (induction xs arbitrary: acc) (auto simp: Let_def)

lemma new_session_starts: "new_session g rs = starts g (groupby_diff Map.empty rs)"
  by (simp add: new_session_def time_diff_sec_def starts_def)

lemma length_new_session [simp]: "length (new_session g rs) = length rs"
  by (simp add: new_session_starts starts_def)

lemma length_session_ids [simp]: "length (session_ids g rs) = length rs"
  by (simp add: session_ids_def new_session_def time_diff_sec_def)

lemma length_with_session_id [simp]: "length (with_session_id g rs) = length rs"
  by (simp add: with_session_id_def)

lemma find_sess_stats:
  assumes "r \<in> set rs"
  shows "find (\<lambda>s. (s_user_id s, s_session_id s) = user_session r) (sess_stats rs) =
           Some \<lparr>s_user_id = user_id r, s_session_id = session_id r,
                 s_event_count = int (length (group_of user_session rs (user_session r))),
                 session_start = Min (set (map timestamp (group_of user_session rs (user_session r)))),
                 session_end = Max (set (map timestamp (group_of user_session rs (user_session r))))\<rparr>"
proof -
  have "user_session r \<in> set (group_keys user_session rs)"
    using assms by (simp add: set_group_keys)
  then have "find (\<lambda>s. (s_user_id s, s_session_id s) = user_session r) (sess_stats rs) =
      Some (let g = group_of user_session rs (user_session r) in
               \<lparr>s_user_id = fst (user_session r), s_session_id = snd (user_session r),
                s_event_count = int (length g),
                session_start = Min (set (map timestamp g)),
                session_end = Max (set (map timestamp g))\<rparr>)"
    unfolding sess_stats_def by (rule find_map_inverse) (simp add: Let_def)
  then show ?thesis
    by (simp add: Let_def user_session_def)
qed

lemma merge_sess_stats:
  "merge_left user_session (\<lambda>s. (s_user_id s, s_session_id s)) join_stats rs (sess_stats rs) =
     map (\<lambda>r. r\<lparr>session_event_count :=
                    Some (int (length (group_of user_session rs (user_session r)))),
                  session_duration_seconds := Some (total_seconds (session_span rs r))\<rparr>) rs"
proof -
  have "distinct (map (\<lambda>s. (s_user_id s, s_session_id s)) (sess_stats rs))"
    by (simp add: sess_stats_def comp_def Let_def distinct_group_keys)
  then show ?thesis
    by (simp add: merge_left_distinct find_sess_stats join_stats_def duration_seconds_def
          session_span_def)
qed

lemma find_avg_per_user:
  assumes "r \<in> set rs"
  shows "find (\<lambda>a. fst a = user_id r) (avg_per_user (daily_counts rs)) =
           Some (user_id r,
                 mean (map (\<lambda>c. snd (snd c)) (group_of fst (daily_counts rs) (user_id r))))"
proof -
  have "user_date r \<in> set (group_keys user_date rs)"
    using assms by (simp add: set_group_keys)
  then have "user_id r \<in> fst ` set (daily_counts rs)"
    by (force simp: daily_counts_def user_date_def)
  then have "user_id r \<in> set (group_keys fst (daily_counts rs))"
    by (simp add: set_group_keys)
  then show ?thesis
    unfolding avg_per_user_def by (rule find_map_inverse) simp
qed

lemma merge_avg_per_user:
  "merge_left user_id fst
     (\<lambda>r m. r\<lparr>user_daily_avg_events := (case m of None \<Rightarrow> None | Some a \<Rightarrow> snd a)\<rparr>)
     rs (avg_per_user (daily_counts rs)) =
   map (\<lambda>r. r\<lparr>user_daily_avg_events := daily_avg rs (user_id r)\<rparr>) rs"
proof -
  have "distinct (map fst (avg_per_user (daily_counts rs)))"
    by (simp add: avg_per_user_def comp_def distinct_group_keys)
  then show ?thesis
    by (simp add: merge_left_distinct find_avg_per_user daily_avg_def)
qed

lemma user_daily_avg_events_merged:
  "''user_daily_avg_events'' \<in> set (merge_columns [''user_id''] cs [''user_id'', ''user_daily_avg_events''])
     \<longleftrightarrow> ''user_daily_avg_events'' \<notin> set cs"
  by (auto simp: merge_columns_def)

section \<open>What the stages return\<close>

lemma add_session_features_ready:
  "session_ready df \<Longrightarrow>
     \<exists>out. add_session_features df g = Inr out \<and> rows out = segmented g (rows df)"
  by (simp add: session_ready_def add_session_features_def Let_def merge_sess_stats
        aggregate_def segmented_def)

lemma add_user_activity_baseline_ready:
  "baseline_ready df \<Longrightarrow>
     \<exists>out. add_user_activity_baseline df = Inr out \<and>
       rows out = map (\<lambda>r. r\<lparr>user_daily_avg_events := daily_avg (rows df) (user_id r)\<rparr>) (rows df)"
  by (simp add: baseline_ready_def add_user_activity_baseline_def Let_def
        user_daily_avg_events_merged merge_avg_per_user)





lemma run_all_Inr:
  "run_all df g = Inr out \<longleftrightarrow>
     (\<exists>d1 d2 d3. add_severity_score df = Inr d1 \<and> add_user_event_frequency d1 = Inr d2 \<and>
        add_user_activity_baseline d2 = Inr d3 \<and> add_session_features d3 g = Inr out)"
  by (auto simp: run_all_def and_then_def split: sum.splits)



lemma add_user_activity_baseline_columns:
  "add_user_activity_baseline df = Inr out \<Longrightarrow>
     set (columns df) \<subseteq> set (columns out) \<and>
     timestamp_is_datetime out = timestamp_is_datetime df"
  by (auto simp: add_user_activity_baseline_def Let_def merge_columns_def split: if_splits)

section \<open>The grouped passes, seen from one user\<close>

lemma of_user_simps [simp]:
  "of_user u [] = []"
  "of_user u ((r, x) # ps) = (if user_id r = u then x # of_user u ps else of_user u ps)"
  by (simp_all add: of_user_def)

lemma of_user_groupby_diff:
  "of_user u (zip rs (groupby_diff prev rs)) =
     diffs (prev u) (map timestamp (group_of user_id rs u))"
  by (induction rs arbitrary: prev) (auto simp: group_of_def)

lemma of_user_groupby_cumsum:
  "length bs = length rs \<Longrightarrow>
   of_user u (zip rs (groupby_cumsum acc (zip (map user_id rs) bs))) =
     cumsum (acc u) (of_user u (zip rs bs))"
proof (induction rs arbitrary: acc bs)
  case Nil
  then show ?case by simp
next
  case (Cons r rs)
  then obtain b bs' where bs: "bs = b # bs'" "length bs' = length rs"
    by (cases bs) auto
  show ?case
    using Cons.IH [OF bs(2)] by (simp add: bs Let_def)
qed

lemma of_user_map:
  "of_user u (zip rs (map f xs)) = map f (of_user u (zip rs xs))"
proof (induction rs arbitrary: xs)
  case Nil
  then show ?case by simp
next
  case (Cons r rs)
  then show ?case by (cases xs) auto
qed

lemma of_user_new_session:
  "of_user u (zip rs (new_session g rs)) =
     starts g (diffs None (map timestamp (group_of user_id rs u)))"
  unfolding new_session_starts starts_def of_user_map of_user_groupby_diff by simp

lemma of_user_session_ids:
  "of_user u (zip rs (session_ids g rs)) =
     cumsum 0 (starts g (diffs None (map timestamp (group_of user_id rs u))))"
  by (simp add: session_ids_def of_user_groupby_cumsum of_user_new_session)

lemma group_of_with_session_id:
  "map session_id (group_of user_id (with_session_id g rs) u) = of_user u (zip rs (session_ids g rs))"
proof -
  have "length (session_ids g rs) = length rs" by simp
  then have "map session_id (group_of user_id (map (\<lambda>(r, i). r\<lparr>session_id := i\<rparr>) (zip rs ids)) u)
        = of_user u (zip rs ids)" if "length ids = length rs" for ids
    using that
  proof (induction rs arbitrary: ids)
    case Nil
    then show ?case by (simp add: group_of_def)
  next
    case (Cons r rs)
    then show ?case by (cases ids) (auto simp: group_of_def)
  qed
  then show ?thesis by (simp add: with_session_id_def)
qed

lemma group_of_zip_update:
  "group_of user_id (map (\<lambda>(r, i). r\<lparr>session_id := i\<rparr>) (zip rs ids)) u =
     map (\<lambda>(r, i). r\<lparr>session_id := i\<rparr>) (filter (\<lambda>p. user_id (fst p) = u) (zip rs ids))"
  by (simp add: group_of_def filter_map comp_def case_prod_beta)

lemma map_filter_fst_zip:
  "length xs = length ys \<Longrightarrow>
     map (\<lambda>p. f (fst p)) (filter (\<lambda>p. P (fst p)) (zip xs ys)) = map f (filter P xs)"
  by (induction xs ys rule: list_induct2) auto

lemma map_group_of_with_session_id:
  assumes "\<And>r i. f (r\<lparr>session_id := i\<rparr>) = f r"
  shows "map f (group_of user_id (with_session_id g rs) u) = map f (group_of user_id rs u)"
proof -
  have "map f (group_of user_id (with_session_id g rs) u) =
        map (\<lambda>p. f (fst p)) (filter (\<lambda>p. user_id (fst p) = u) (zip rs (session_ids g rs)))"
    by (simp add: with_session_id_def group_of_zip_update comp_def case_prod_beta assms)
  also have "\<dots> = map f (filter (\<lambda>r. user_id r = u) rs)"
    by (rule map_filter_fst_zip) simp
  finally show ?thesis by (simp add: group_of_def)
qed

lemma map_with_session_id:
  assumes "\<And>r i. f (r\<lparr>session_id := i\<rparr>) = f r"
  shows "map f (with_session_id g rs) = map f rs"
proof -
  have "map f (with_session_id g rs) =
        map (\<lambda>p. f (fst p)) (filter (\<lambda>p. True) (zip rs (session_ids g rs)))"
    by (simp add: with_session_id_def comp_def case_prod_beta assms)
  also have "\<dots> = map f (filter (\<lambda>r. True) rs)"
    by (rule map_filter_fst_zip) simp
  finally show ?thesis by simp
qed

lemma aggregate_fields [simp]:
  "event_id (aggregate rs r) = event_id r"
  "user_id (aggregate rs r) = user_id r"
  "timestamp (aggregate rs r) = timestamp r"
  "severity (aggregate rs r) = severity r"
  "session_id (aggregate rs r) = session_id r"
  "user_session (aggregate rs r) = user_session r"
  by (simp_all add: aggregate_def user_session_def)

lemma sorted_group_timestamps:
  "sorted (map (\<lambda>r. (user_id r, timestamp r)) rs) \<Longrightarrow>
     sorted (map timestamp (group_of user_id rs u))"
  by (induction rs) (auto simp: group_of_def)

lemma sorted_user_timestamps:
  "sorted (map timestamp (group_of user_id (sort_values rs) u))"
  by (rule sorted_group_timestamps) (simp add: sort_values_def)

lemma map_group_of_segmented:
  assumes "\<And>r i. f (r\<lparr>session_id := i\<rparr>) = f r" and "\<And>rs r. f (aggregate rs r) = f r"
  shows "map f (group_of user_id (segmented g rs) u) = map f (group_of user_id (sort_values rs) u)"
proof -
  have "map f (group_of user_id (segmented g rs) u) =
        map f (group_of user_id (with_session_id g (sort_values rs)) u)"
    by (simp add: segmented_def group_of_map comp_def assms(2))
  then show ?thesis
    by (simp add: map_group_of_with_session_id assms(1))
qed

lemma session_ids_segmented:
  "map session_id (group_of user_id (segmented g rs) u) =
     cumsum 0 (starts g (diffs None (map timestamp (group_of user_id (sort_values rs) u))))"
proof -
  have "map session_id (group_of user_id (segmented g rs) u) =
        map session_id (group_of user_id (with_session_id g (sort_values rs)) u)"
    by (simp add: segmented_def group_of_map comp_def)
  then show ?thesis
    by (simp add: group_of_with_session_id of_user_session_ids)
qed

lemma timestamps_segmented:
  "map timestamp (group_of user_id (segmented g rs) u) =
     map timestamp (group_of user_id (sort_values rs) u)"
  by (rule map_group_of_segmented) simp_all

lemma map_segmented:
  assumes "\<And>r i. f (r\<lparr>session_id := i\<rparr>) = f r" and "\<And>rs r. f (aggregate rs r) = f r"
  shows "map f (segmented g rs) = map f (sort_values rs)"
proof -
  have "map f (segmented g rs) = map f (with_session_id g (sort_values rs))"
    by (simp add: segmented_def comp_def assms(2))
  then show ?thesis
    by (simp add: map_with_session_id assms(1))
qed

section \<open>Float64 rounding\<close>

lemma pow2_pos [simp]: "0 < pow2 e"
  by (simp add: pow2_def)

lemma pow2_add: "pow2 (a + b) = pow2 a * pow2 b"
  by (simp add: pow2_def power_int_add)

lemma pow2_nat: "0 \<le> e \<Longrightarrow> pow2 e = 2 ^ nat e"
  by (simp add: pow2_def power_int_def)

lemma pow2_mono: "a \<le> b \<Longrightarrow> pow2 a \<le> pow2 b"
  by (simp add: pow2_def power_int_increasing)

lemma pow2_strict_mono: "a < b \<Longrightarrow> pow2 a < pow2 b"
  by (simp add: pow2_def power_int_strict_increasing)

lemma round_half_even_bounds:
  "of_int (round_half_even q) \<le> q + 1 / 2" "q - 1 / 2 \<le> of_int (round_half_even q)"
  unfolding round_half_even_def Let_def by (auto; linarith)+

lemma round_half_even_of_int [simp]: "round_half_even (of_int n) = n"
  by (simp add: round_half_even_def)

lemma round_half_even_mono_int:
  "of_int n \<le> q \<Longrightarrow> n \<le> round_half_even q" "q \<le> of_int n \<Longrightarrow> round_half_even q \<le> n"
proof -
  show "n \<le> round_half_even q" if "of_int n \<le> q"
  proof -
    from that have "n \<le> \<lfloor>q\<rfloor>" by (simp add: le_floor_iff)
    then show ?thesis unfolding round_half_even_def Let_def by auto
  qed
  show "round_half_even q \<le> n" if "q \<le> of_int n"
  proof (cases "q = of_int n")
    case True
    then show ?thesis by simp
  next
    case False
    with that have "q < of_int n" by simp
    then have "\<lfloor>q\<rfloor> < n" by (simp add: floor_less_iff)
    then show ?thesis unfolding round_half_even_def Let_def by auto
  qed
qed

lemma float64_zero [simp]: "float64 0 = 0"
  by (simp add: float64_def)

lemma float64_nonneg: "0 \<le> x \<Longrightarrow> 0 \<le> float64 x"
proof -
  assume x: "0 \<le> x"
  define u where "u = pow2 (exponent \<bar>x\<bar> - 52)"
  have "0 < u" by (simp add: u_def)
  then have "of_int 0 \<le> \<bar>x\<bar> / u" by simp
  then have "0 \<le> round_half_even (\<bar>x\<bar> / u)"
    by (rule round_half_even_mono_int(1))
  then have "0 \<le> of_int (round_half_even (\<bar>x\<bar> / u)) * u"
    using \<open>0 < u\<close> by simp
  then show ?thesis
    using x by (simp add: float64_def Let_def sgn_if u_def)
qed

lemma total_seconds_nonneg: "0 \<le> n \<Longrightarrow> 0 \<le> total_seconds n"
  by (simp add: total_seconds_def float64_nonneg)

lemma total_seconds_zero [simp]: "total_seconds 0 = 0"
  by (simp add: total_seconds_def)

lemma pow2_neq_0 [simp]: "pow2 e \<noteq> 0"
  by (simp add: pow2_def)

lemma pow2_diff: "pow2 (a - b) = pow2 a / pow2 b"
  using pow2_add [of "a - b" b] by (simp add: field_simps)

lemma bitlen_pow2_bounds:
  assumes "0 < a"
  shows "pow2 (bitlen a - 1) \<le> of_int a" "of_int a < pow2 (bitlen a)"
proof -
  have b: "2 ^ nat (bitlen a - 1) \<le> a" "a < 2 ^ nat (bitlen a)"
    using bitlen_bounds [OF assms] by auto
  have pos: "1 \<le> bitlen a"
    using assms bitlen_eq_zero_iff [of a] bitlen_nonneg [of a] by linarith
  have "of_int (2 ^ nat (bitlen a - 1)) \<le> (of_int a :: rat)"
    using b(1) by (simp only: of_int_le_iff)
  then show "pow2 (bitlen a - 1) \<le> of_int a"
    using pos by (simp add: pow2_nat)
  have "(of_int a :: rat) < of_int (2 ^ nat (bitlen a))"
    using b(2) by (simp only: of_int_less_iff)
  then show "of_int a < pow2 (bitlen a)"
    using pos by (simp add: pow2_nat)
qed

lemma exponent_bounds:
  assumes "0 < x"
  shows "pow2 (exponent x) \<le> x" "x < pow2 (exponent x + 1)"
proof -
  obtain a b where q: "quotient_of x = (a, b)" by (cases "quotient_of x")
  then have b: "0 < b" and x: "x = of_int a / of_int b"
    using quotient_of_denom_pos [OF q] quotient_of_div [OF q] by auto
  have a: "0 < a"
    using assms b x by (simp add: zero_less_divide_iff)
  define k where "k = bitlen a - bitlen b"
  have "x < pow2 (bitlen a) / pow2 (bitlen b - 1)"
    unfolding x using bitlen_pow2_bounds [OF a] bitlen_pow2_bounds [OF b] a b
    by (intro frac_less) simp_all
  then have up: "x < pow2 (k + 1)"
    using pow2_diff [of "bitlen a" "bitlen b - 1"] by (simp add: k_def algebra_simps)
  have "pow2 (bitlen a - 1) / pow2 (bitlen b) < x"
    unfolding x using bitlen_pow2_bounds [OF a] bitlen_pow2_bounds [OF b] a b
    by (intro frac_less2) simp_all
  then have low: "pow2 (k - 1) < x"
    using pow2_diff [of "bitlen a - 1" "bitlen b"] by (simp add: k_def algebra_simps)
  have e: "exponent x = (if pow2 k \<le> x then k else k - 1)"
    by (simp add: exponent_def q k_def)
  show "pow2 (exponent x) \<le> x"
    using low by (simp add: e)
  show "x < pow2 (exponent x + 1)"
    using up by (simp add: e)
qed

lemma exponent_unique:
  assumes "pow2 e \<le> x" "x < pow2 (e + 1)"
  shows "exponent x = e"
proof -
  have x: "0 < x"
    using assms(1) pow2_pos [of e] by linarith
  note b = exponent_bounds [OF x]
  have "\<not> exponent x < e"
  proof
    assume "exponent x < e"
    then have "pow2 (exponent x + 1) \<le> pow2 e" by (intro pow2_mono) simp
    with b(2) assms(1) show False by linarith
  qed
  moreover have "\<not> e < exponent x"
  proof
    assume "e < exponent x"
    then have "pow2 (e + 1) \<le> pow2 (exponent x)" by (intro pow2_mono) simp
    with b(1) assms(2) show False by linarith
  qed
  ultimately show ?thesis by linarith
qed

lemma float64_pos:
  assumes "0 < x"
  shows "float64 x = of_int (round_half_even (x / pow2 (exponent x - 52))) * pow2 (exponent x - 52)"
  using assms by (simp add: float64_def Let_def)

lemma float64_grid_le:
  assumes "0 < x" and "x \<le> of_int N" and "exponent x \<le> 52"
  shows "float64 x \<le> of_int N"
proof -
  define k where "k = nat (52 - exponent x)"
  define u where "u = pow2 (exponent x - 52)"
  have u: "0 < u" by (simp add: u_def)
  have "pow2 (exponent x - 52) * pow2 (52 - exponent x) = 1"
    using pow2_add [of "exponent x - 52" "52 - exponent x"] by (simp add: pow2_def)
  moreover have "pow2 (52 - exponent x) = 2 ^ k"
    using assms(3) by (simp add: pow2_nat k_def)
  ultimately have inv: "u * 2 ^ k = 1"
    by (simp add: u_def)
  then have "x / u = x * 2 ^ k" "of_int N / u = of_int (N * 2 ^ k)"
    using u by (simp_all add: field_simps)
  moreover have "x / u \<le> of_int N / u"
    using assms(2) u by (simp add: divide_right_mono)
  ultimately have "x / u \<le> of_int (N * 2 ^ k)"
    by simp
  then have "round_half_even (x / u) \<le> N * 2 ^ k"
    by (rule round_half_even_mono_int(2))
  then have "of_int (round_half_even (x / u)) * u \<le> of_int (N * 2 ^ k) * u"
    using u by (simp only: mult_le_cancel_right_pos of_int_le_iff)
  also have "\<dots> = of_int N * (u * 2 ^ k)"
    by simp
  finally have "of_int (round_half_even (x / u)) * u \<le> of_int N"
    by (simp only: inv mult_1_right)
  then show ?thesis
    by (simp only: float64_pos [OF assms(1)] u_def)
qed

lemma float64_grid_ge:
  assumes "0 < x" and "of_int N \<le> x" and "exponent x \<le> 52"
  shows "of_int N \<le> float64 x"
proof -
  define k where "k = nat (52 - exponent x)"
  define u where "u = pow2 (exponent x - 52)"
  have u: "0 < u" by (simp add: u_def)
  have "pow2 (exponent x - 52) * pow2 (52 - exponent x) = 1"
    using pow2_add [of "exponent x - 52" "52 - exponent x"] by (simp add: pow2_def)
  moreover have "pow2 (52 - exponent x) = 2 ^ k"
    using assms(3) by (simp add: pow2_nat k_def)
  ultimately have inv: "u * 2 ^ k = 1"
    by (simp add: u_def)
  then have "x / u = x * 2 ^ k" "of_int N / u = of_int (N * 2 ^ k)"
    using u by (simp_all add: field_simps)
  moreover have "of_int N / u \<le> x / u"
    using assms(2) u by (simp add: divide_right_mono)
  ultimately have "of_int (N * 2 ^ k) \<le> x / u"
    by simp
  then have "N * 2 ^ k \<le> round_half_even (x / u)"
    by (rule round_half_even_mono_int(1))
  then have "of_int (N * 2 ^ k) * u \<le> of_int (round_half_even (x / u)) * u"
    using u by (simp only: mult_le_cancel_right_pos of_int_le_iff)
  moreover have "of_int (N * 2 ^ k) * u = of_int N * (u * 2 ^ k)"
    by simp
  ultimately have "of_int N \<le> of_int (round_half_even (x / u)) * u"
    by (simp only: inv mult_1_right)
  then show ?thesis
    by (simp only: float64_pos [OF assms(1)] u_def)
qed

lemma float64_near:
  assumes "0 < x"
  shows "x - pow2 (exponent x - 52) / 2 \<le> float64 x"
proof -
  define u where "u = pow2 (exponent x - 52)"
  have u: "0 < u" by (simp add: u_def)
  have "(x / u - 1 / 2) * u \<le> of_int (round_half_even (x / u)) * u"
    using round_half_even_bounds(2) [of "x / u"] u by (simp only: mult_le_cancel_right_pos)
  moreover have "(x / u - 1 / 2) * u = x - u / 2"
    using u by (simp add: field_simps)
  ultimately show ?thesis
    by (simp add: float64_pos [OF assms] flip: u_def)
qed

lemma float64_minus: "float64 (- x) = - float64 x"
  by (simp add: float64_def Let_def sgn_if)

lemma exponent_less:
  assumes "0 < x" and "x < pow2 e"
  shows "exponent x < e"
proof (rule ccontr)
  assume "\<not> exponent x < e"
  then have "pow2 e \<le> pow2 (exponent x)" by (intro pow2_mono) simp
  with exponent_bounds(1) [OF assms(1)] assms(2) show False by linarith
qed

lemma float64_of_int_pos:
  assumes "0 < n" and "n \<le> 2 ^ 53"
  shows "float64 (of_int n) = of_int n"
proof (cases "n = 2 ^ 53")
  case True
  have "float64 9007199254740992 = 9007199254740992"
    by code_simp
  then show ?thesis
    by (simp add: True)
next
  case False
  with assms have "n < 2 ^ 53" by simp
  then have "(of_int n :: rat) < of_int (2 ^ 53)" by (simp only: of_int_less_iff)
  then have "(of_int n :: rat) < pow2 53" by (simp add: pow2_def)
  moreover have pos: "(0 :: rat) < of_int n" using assms(1) by simp
  ultimately have e: "exponent (of_int n) \<le> 52"
    using exponent_less [of "of_int n" 53] by simp
  have "float64 (of_int n) \<le> of_int n"
    by (rule float64_grid_le [OF pos _ e]) simp
  moreover have "of_int n \<le> float64 (of_int n)"
    by (rule float64_grid_ge [OF pos _ e]) simp
  ultimately show ?thesis by simp
qed

lemma float64_of_int:
  assumes "\<bar>n\<bar> \<le> 2 ^ 53"
  shows "float64 (of_int n) = of_int n"
proof -
  consider "n = 0" | "0 < n" | "n < 0" by linarith
  then show ?thesis
  proof cases
    case 1
    then show ?thesis by simp
  next
    case 2
    with assms show ?thesis by (simp add: float64_of_int_pos)
  next
    case 3
    with assms have "float64 (of_int (- n)) = of_int (- n)"
      by (intro float64_of_int_pos) simp_all
    then show ?thesis
      using float64_minus [of "of_int n"] by simp
  qed
qed

lemma total_seconds_exceeds_iff:
  assumes D: "0 \<le> D" "D \<le> 2 ^ 53" and G: "\<bar>G\<bar> \<le> 2 ^ 53"
  shows "total_seconds D > float64 (of_int G) \<longleftrightarrow> D > G * 1000000000"
proof -
  define y :: rat where "y = of_int D / 1000000000"
  have fG: "float64 (of_int G) = of_int G"
    by (rule float64_of_int [OF G])
  have fD: "float64 (of_int D) = of_int D"
    using D by (intro float64_of_int) simp
  have ts: "total_seconds D = float64 y"
    by (simp add: total_seconds_def fD y_def)
  show ?thesis
  proof (cases "D = 0")
    case True
    then show ?thesis by (simp add: fG)
  next
    case False
    with D have pos: "0 < D" by simp
    then have y: "0 < y" by (simp add: y_def)
    have "(of_int D :: rat) \<le> of_int (2 ^ 53)"
      using D(2) by (simp only: of_int_le_iff)
    then have "y < pow2 24"
      by (simp add: y_def pow2_def)
    then have e: "exponent y < 24"
      by (rule exponent_less [OF y])
    show ?thesis
    proof
      assume gt: "D > G * 1000000000"
      then have "G * 1000000000 + 1 \<le> D" by simp
      then have "(of_int (G * 1000000000 + 1) :: rat) \<le> of_int D"
        by (simp only: of_int_le_iff)
      then have yG: "of_int G + 1 / 1000000000 \<le> y"
        by (simp add: y_def field_simps)
      have "pow2 (exponent y - 52) \<le> pow2 (- 29)"
        using e by (intro pow2_mono) simp
      moreover have "pow2 (- 29) / 2 < 1 / 1000000000"
        by code_simp
      ultimately have "pow2 (exponent y - 52) / 2 < 1 / 1000000000"
        by linarith
      with float64_near [OF y] yG have "of_int G < float64 y"
        by linarith
      then show "total_seconds D > float64 (of_int G)"
        by (simp add: ts fG)
    next
      assume "total_seconds D > float64 (of_int G)"
      then have lt: "of_int G < float64 y"
        by (simp add: ts fG)
      show "D > G * 1000000000"
      proof (rule ccontr)
        assume "\<not> D > G * 1000000000"
        then have "D \<le> G * 1000000000" by simp
        then have "(of_int D :: rat) \<le> of_int (G * 1000000000)"
          by (simp only: of_int_le_iff)
        then have "y \<le> of_int G"
          by (simp add: y_def field_simps)
        then have "float64 y \<le> of_int G"
          using e by (intro float64_grid_le [OF y]) simp_all
        with lt show False by simp
      qed
    qed
  qed
qed

section \<open>Session ids\<close>

lemma later_ids_simps [simp]:
  "later_ids g c p [] = []"
  "later_ids g c p (t # ts) =
     (c + (if total_seconds (t - p) > float64 (of_int (g * 60)) then 1 else 0))
       # later_ids g (c + (if total_seconds (t - p) > float64 (of_int (g * 60)) then 1 else 0)) t ts"
  by (simp_all add: later_ids_def starts_def fillna_inf_def)

lemma user_ids_Cons: "cumsum 0 (starts g (diffs None (t # ts))) = 1 # later_ids g 1 t ts"
  by (simp add: starts_def later_ids_def fillna_inf_def)

lemma length_later_ids [simp]: "length (later_ids g c p ts) = length ts"
  by (induction ts arbitrary: c p) auto

lemma later_ids_step:
  "i < length ts \<Longrightarrow>
     (c # later_ids g c p ts) ! Suc i =
       (c # later_ids g c p ts) ! i +
         (if total_seconds ((p # ts) ! Suc i - (p # ts) ! i) > float64 (of_int (g * 60)) then 1 else 0)"
proof (induction ts arbitrary: c p i)
  case Nil
  then show ?case by simp
next
  case (Cons t ts)
  show ?case
  proof (cases i)
    case 0
    then show ?thesis by simp
  next
    case (Suc j)
    with Cons.prems have "j < length ts" by simp
    from Cons.IH [OF this] show ?thesis
      by (simp add: Suc)
  qed
qed

lemma later_ids_runs:
  "remdups_adj (c # later_ids g c p ts) = [c .. last (c # later_ids g c p ts)]
   \<and> c \<le> last (c # later_ids g c p ts)"
proof (induction ts arbitrary: c p)
  case Nil
  then show ?case by simp
next
  case (Cons t ts)
  define c' where "c' = c + (if total_seconds (t - p) > float64 (of_int (g * 60)) then 1 else 0)"
  define tl' where "tl' = later_ids g c' t ts"
  have IH: "remdups_adj (c' # tl') = [c' .. last (c' # tl')]" "c' \<le> last (c' # tl')"
    using Cons.IH [of c' t] by (auto simp: tl'_def)
  have unfold: "c # later_ids g c p (t # ts) = c # c' # tl'"
    by (simp add: c'_def tl'_def)
  have last: "last (c # c' # tl') = last (c' # tl')"
    by simp
  have "c' = c \<or> c' = c + 1"
    by (simp add: c'_def)
  then consider "c' = c" | "c' = c + 1"
    by blast
  then show ?case
  proof cases
    case 1
    have "remdups_adj (c # c' # tl') = remdups_adj (c' # tl')"
      using 1 by simp
    then show ?thesis
      unfolding unfold last using IH 1 by simp
  next
    case 2
    have "remdups_adj (c # c' # tl') = c # remdups_adj (c' # tl')"
      using 2 by simp
    also have "\<dots> = c # [c + 1 .. last (c' # tl')]"
      using IH(1) 2 by simp
    also have "\<dots> = [c .. last (c' # tl')]"
      using IH(2) 2 upto_rec1 [of c "last (c' # tl')"] by simp
    finally show ?thesis
      unfolding unfold last using IH(2) 2 by simp
  qed
qed

lemma user_ids_runs:
  "remdups_adj (cumsum 0 (starts g (diffs None ts))) =
     [1 .. int (length (remdups_adj (cumsum 0 (starts g (diffs None ts)))))]"
proof (cases ts)
  case Nil
  then show ?thesis by (simp add: starts_def)
next
  case (Cons t ts')
  let ?ids = "1 # later_ids g 1 t ts'"
  have runs: "remdups_adj ?ids = [1 .. last ?ids]" and le: "1 \<le> last ?ids"
    using later_ids_runs [of 1 g t ts'] by auto
  have "length (remdups_adj ?ids) = nat (last ?ids)"
    by (simp only: runs length_upto)
  then have "int (length (remdups_adj ?ids)) = last ?ids"
    using le by simp
  then show ?thesis
    using runs by (simp only: Cons user_ids_Cons)
qed

lemma starts_later_nth:
  "i < length ts \<Longrightarrow>
     starts g (diffs (Some p) ts) ! i =
       (total_seconds ((p # ts) ! Suc i - (p # ts) ! i) > float64 (of_int (g * 60)))"
proof (induction ts arbitrary: p i)
  case Nil
  then show ?case by simp
next
  case (Cons t ts)
  then show ?case
    by (cases i) (simp_all add: starts_def fillna_inf_def)
qed

lemma starts_first: "starts g (diffs None (t # ts)) = True # starts g (diffs (Some t) ts)"
  by (simp add: starts_def fillna_inf_def)

lemma length_starts_diffs [simp]: "length (starts g (diffs p ts)) = length ts"
  by (induction ts arbitrary: p) (simp_all add: starts_def)

text \<open>
  C1, as stated, fails: the first row of a user has no predecessor, its difference is filled
  with infinity, so it counts as a session start and the running count on it is 1. On the
  events at 00:00, 00:20 and 01:05 with a gap of 30 minutes the session ids are 1, 1, 2 and
  not 0, 0, 1.
\<close>

theorem first_session_id_counterexample:
  "\<not> isl (add_session_features scenario 30) \<and>
   map timestamp (rows (projr (add_session_features scenario 30))) =
     [0, 1200000000000, 3900000000000] \<and>
   map session_id (rows (projr (add_session_features scenario 30))) = [1, 1, 2]"
  by code_simp

text \<open>
  C1, amended. For every table on which the Session Segmenter computes, and every user, the
  rows of the user come out in chronological order and their session ids, one for each run
  of equal ids, are exactly 1, 2, 3, ...: the running count of session starts begins at 1.
  (\<open>remdups_adj\<close> keeps one id of every run; as the result has no repetition, it lists the
  ids in the order of their first occurrence.)
\<close>

theorem session_ids_count_from_one:
  assumes "session_ready df"
  shows "\<exists>out. add_session_features df gap_minutes = Inr out \<and>
           sorted (map timestamp (group_of user_id (rows out) u)) \<and>
           remdups_adj (map session_id (group_of user_id (rows out) u)) =
             [1 .. int (length (remdups_adj (map session_id (group_of user_id (rows out) u))))]"
proof -
  obtain out where out: "add_session_features df gap_minutes = Inr out"
      "rows out = segmented gap_minutes (rows df)"
    using add_session_features_ready [OF assms] by blast
  have "sorted (map timestamp (group_of user_id (rows out) u))"
    by (simp add: out(2) timestamps_segmented sorted_user_timestamps)
  moreover have "remdups_adj (map session_id (group_of user_id (rows out) u)) =
             [1 .. int (length (remdups_adj (map session_id (group_of user_id (rows out) u))))]"
    unfolding out(2) session_ids_segmented by (rule user_ids_runs)
  ultimately show ?thesis
    using out(1) by blast
qed

theorem session_ids_count_from_one_witness:
  "session_ready scenario \<and>
   (\<exists>out. add_session_features scenario 30 = Inr out \<and>
      map session_id (group_of user_id (rows out) ''u'') = [1, 1, 2] \<and>
      remdups_adj (map session_id (group_of user_id (rows out) ''u'')) = [1, 2])"
proof -
  have ready: "session_ready scenario"
    by (simp add: session_ready_def scenario_def input_columns_def)
  obtain out where out: "add_session_features scenario 30 = Inr out"
    using session_ids_count_from_one [OF ready, of 30 "''u''"] by blast
  have "map session_id (group_of user_id (rows (projr (add_session_features scenario 30))) ''u'')
      = [1, 1, 2]"
    by code_simp
  then have ids: "map session_id (group_of user_id (rows out) ''u'') = [1, 1, 2]"
    by (simp add: out)
  show ?thesis
    using ready out ids by (intro conjI exI [of _ out]) simp_all
qed

text \<open>
  What the code does on the rows of one user, which come out in time order: the first row
  is a session start; a later row is a session start exactly when the float64 number of
  seconds between it and the row before is greater than the float64 threshold; the
  session id grows by one at a session start and stays the same otherwise.
\<close>

lemma session_start_rule:
  assumes "session_ready df"
  shows "\<exists>out. add_session_features df gap_minutes = Inr out \<and>
           (let srt = sort_values (rows df);
                us = group_of user_id (rows out) u;
                start = of_user u (zip srt (new_session gap_minutes srt))
            in sorted (map timestamp us) \<and> length start = length us \<and>
               (us \<noteq> [] \<longrightarrow> start ! 0 \<and> session_id (us ! 0) = 1) \<and>
               (\<forall>i. Suc i < length us \<longrightarrow>
                  (start ! Suc i \<longleftrightarrow>
                     total_seconds (timestamp (us ! Suc i) - timestamp (us ! i))
                       > float64 (of_int (gap_minutes * 60))) \<and>
                  session_id (us ! Suc i) =
                    session_id (us ! i) + (if start ! Suc i then 1 else 0)))"
proof -
  obtain out where out: "add_session_features df gap_minutes = Inr out"
      "rows out = segmented gap_minutes (rows df)"
    using add_session_features_ready [OF assms] by blast
  define srt where "srt = sort_values (rows df)"
  define us where "us = group_of user_id (rows out) u"
  define start where "start = of_user u (zip srt (new_session gap_minutes srt))"
  define ts where "ts = map timestamp us"
  define ids where "ids = map session_id us"
  have ts: "ts = map timestamp (group_of user_id srt u)"
    by (simp add: ts_def us_def out(2) timestamps_segmented srt_def)
  have start: "start = starts gap_minutes (diffs None ts)"
    by (simp add: start_def of_user_new_session ts)
  have ids: "ids = cumsum 0 (starts gap_minutes (diffs None ts))"
    by (simp add: ids_def us_def out(2) session_ids_segmented ts srt_def)
  have len: "length ts = length us" "length ids = length us"
    by (simp_all add: ts_def ids_def)
  have nth: "timestamp (us ! i) = ts ! i" "session_id (us ! i) = ids ! i" if "i < length us" for i
    using that by (simp_all add: ts_def ids_def)
  have sorted: "sorted (map timestamp us)"
    using sorted_user_timestamps [of "rows df" u] ts by (simp add: ts_def srt_def)
  have len_start: "length start = length us"
    by (simp add: start len(1) [symmetric])
  have first: "start ! 0 \<and> session_id (us ! 0) = 1" if "us \<noteq> []"
  proof -
    from that len obtain t ts' where c: "ts = t # ts'" by (cases ts) auto
    have "start = True # starts gap_minutes (diffs (Some t) ts')"
      by (simp only: start c starts_first)
    moreover have "ids = 1 # later_ids gap_minutes 1 t ts'"
      by (simp only: ids c user_ids_Cons)
    ultimately show ?thesis
      using that nth(2) [of 0] by simp
  qed
  have step: "(start ! Suc i \<longleftrightarrow>
                 total_seconds (timestamp (us ! Suc i) - timestamp (us ! i))
                   > float64 (of_int (gap_minutes * 60))) \<and>
              session_id (us ! Suc i) =
                session_id (us ! i) + (if start ! Suc i then 1 else 0)"
    if i: "Suc i < length us" for i
  proof -
    from i len obtain t ts' where c: "ts = t # ts'" by (cases ts) auto
    with i len have i': "i < length ts'" by simp
    have s': "start = True # starts gap_minutes (diffs (Some t) ts')"
      by (simp only: start c starts_first)
    have ids': "ids = 1 # later_ids gap_minutes 1 t ts'"
      by (simp only: ids c user_ids_Cons)
    have "start ! Suc i =
        (total_seconds ((t # ts') ! Suc i - (t # ts') ! i) > float64 (of_int (gap_minutes * 60)))"
      using starts_later_nth [OF i'] by (simp add: s')
    moreover have "ids ! Suc i = ids ! i +
        (if total_seconds ((t # ts') ! Suc i - (t # ts') ! i) > float64 (of_int (gap_minutes * 60))
         then 1 else 0)"
      using later_ids_step [OF i', of 1 gap_minutes t] by (simp only: ids')
    ultimately show ?thesis
      using i nth [of i] nth [of "Suc i"] by (simp add: c)
  qed
  have "sorted (map timestamp us) \<and> length start = length us \<and>
        (us \<noteq> [] \<longrightarrow> start ! 0 \<and> session_id (us ! 0) = 1) \<and>
        (\<forall>i. Suc i < length us \<longrightarrow>
           (start ! Suc i \<longleftrightarrow>
              total_seconds (timestamp (us ! Suc i) - timestamp (us ! i))
                > float64 (of_int (gap_minutes * 60))) \<and>
           session_id (us ! Suc i) = session_id (us ! i) + (if start ! Suc i then 1 else 0))"
    using sorted len_start first step by auto
  then show ?thesis
    using out(1) unfolding Let_def srt_def us_def start_def by blast
qed


text \<open>
  Where float64 resolves a nanosecond, the comparison of the code is the comparison of the
  exact differences: for thresholds and differences of at most \<open>2 ^ 53\<close> nanoseconds (104
  days) a new session starts exactly when the difference is strictly greater than
  \<open>gap_minutes * 60\<close> seconds.
\<close>

lemma gap_boundary_in_range:
  assumes ready: "session_ready df"
    and gap: "\<bar>gap_minutes * 60\<bar> \<le> 2 ^ 53"
    and near: "\<And>r s. r \<in> set (rows df) \<Longrightarrow> s \<in> set (rows df) \<Longrightarrow>
                 timestamp s - timestamp r \<le> 2 ^ 53"
  shows "\<exists>out. add_session_features df gap_minutes = Inr out \<and>
           (\<forall>i. Suc i < length (group_of user_id (rows out) u) \<longrightarrow>
              session_id (group_of user_id (rows out) u ! Suc i) =
                session_id (group_of user_id (rows out) u ! i) +
                  (if timestamp (group_of user_id (rows out) u ! Suc i) -
                      timestamp (group_of user_id (rows out) u ! i)
                        > gap_minutes * 60 * 1000000000
                   then 1 else 0))"
proof -
  obtain out where out: "add_session_features df gap_minutes = Inr out"
    and rule: "let srt = sort_values (rows df);
                us = group_of user_id (rows out) u;
                start = of_user u (zip srt (new_session gap_minutes srt))
            in sorted (map timestamp us) \<and> length start = length us \<and>
               (us \<noteq> [] \<longrightarrow> start ! 0 \<and> session_id (us ! 0) = 1) \<and>
               (\<forall>i. Suc i < length us \<longrightarrow>
                  (start ! Suc i \<longleftrightarrow>
                     total_seconds (timestamp (us ! Suc i) - timestamp (us ! i))
                       > float64 (of_int (gap_minutes * 60))) \<and>
                  session_id (us ! Suc i) =
                    session_id (us ! i) + (if start ! Suc i then 1 else 0))"
    using session_start_rule [OF ready, of gap_minutes u] by blast
  obtain out' where out': "add_session_features df gap_minutes = Inr out'"
      "rows out' = segmented gap_minutes (rows df)"
    using add_session_features_ready [OF ready] by blast
  with out have rows: "rows out = segmented gap_minutes (rows df)"
    by simp
  define us where "us = group_of user_id (rows out) u"
  define start where
    "start = of_user u (zip (sort_values (rows df)) (new_session gap_minutes (sort_values (rows df))))"
  have sorted: "sorted (map timestamp us)"
    and step: "\<And>i. Suc i < length us \<Longrightarrow>
      (start ! Suc i \<longleftrightarrow>
         total_seconds (timestamp (us ! Suc i) - timestamp (us ! i))
           > float64 (of_int (gap_minutes * 60))) \<and>
      session_id (us ! Suc i) = session_id (us ! i) + (if start ! Suc i then 1 else 0)"
    using rule unfolding Let_def us_def start_def by blast+
  have "map timestamp us = map timestamp (group_of user_id (sort_values (rows df)) u)"
    by (simp add: us_def rows timestamps_segmented)
  then have times: "set (map timestamp us) \<subseteq> timestamp ` set (rows df)"
    by (auto simp: group_of_def sort_values_def)
  have "session_id (us ! Suc i) =
          session_id (us ! i) +
            (if timestamp (us ! Suc i) - timestamp (us ! i) > gap_minutes * 60 * 1000000000
             then 1 else 0)" if i: "Suc i < length us" for i
  proof -
    define D where "D = timestamp (us ! Suc i) - timestamp (us ! i)"
    have "map timestamp us ! i \<le> map timestamp us ! Suc i"
      using sorted i by (intro sorted_nth_mono) simp_all
    then have D0: "0 \<le> D"
      using i by (simp add: D_def)
    have "timestamp (us ! i) \<in> set (map timestamp us)"
      using i by simp
    then have "timestamp (us ! i) \<in> timestamp ` set (rows df)"
      using times by blast
    then obtain r where r: "r \<in> set (rows df)" "timestamp (us ! i) = timestamp r"
      by blast
    have "timestamp (us ! Suc i) \<in> set (map timestamp us)"
      using i by simp
    then have "timestamp (us ! Suc i) \<in> timestamp ` set (rows df)"
      using times by blast
    then obtain s where s: "s \<in> set (rows df)" "timestamp (us ! Suc i) = timestamp s"
      by blast
    note r s
    then have D1: "D \<le> 2 ^ 53"
      using near [of r s] by (simp add: D_def)
    have "total_seconds D > float64 (of_int (gap_minutes * 60)) \<longleftrightarrow>
            D > gap_minutes * 60 * 1000000000"
      by (rule total_seconds_exceeds_iff [OF D0 D1 gap])
    then show ?thesis
      using step [OF i] by (simp add: D_def)
  qed
  then show ?thesis
    using out unfolding us_def by blast
qed

text \<open>
  With the default gap of 30 minutes: a difference of exactly 1800 seconds keeps two rows in
  one session, one nanosecond more starts a new one.
\<close>

lemma gap_example_sessions:
  "\<not> isl (add_session_features gap_example 30) \<and>
   map timestamp (group_of user_id (rows (projr (add_session_features gap_example 30))) ''u'') =
     [0, 1800000000000, 3600000000001] \<and>
   map session_id (group_of user_id (rows (projr (add_session_features gap_example 30))) ''u'') =
     [1, 1, 2]"
  by code_simp

text \<open>
  C3. The rule "a new session starts iff the difference in seconds is strictly greater
  than \<open>gap_minutes * 60\<close>" is what the code computes on float64 numbers, and it is lost
  where these cannot tell the difference from the threshold. With \<open>gap_minutes = 150120\<close>
  the threshold is 9007200 seconds; two events of one user 9007200000000001 nanoseconds
  apart, one nanosecond more than the threshold, get the same session id, because the
  difference is rounded to 9007200 seconds before the comparison.
\<close>

theorem gap_boundary_lost_to_rounding:
  "\<not> isl (add_session_features far_gap_example 150120) \<and>
   map timestamp (rows (projr (add_session_features far_gap_example 150120))) =
     [0, 9007200000000001] \<and>
   (150120 :: int) * 60 * 1000000000 < 9007200000000001 \<and>
   total_seconds 9007200000000001 = 9007200 \<and>
   map session_id (rows (projr (add_session_features far_gap_example 150120))) = [1, 1]"
  by code_simp

section \<open>Row order\<close>

lemma insort_key_map_commute:
  assumes "\<And>x. f (h x) = f x"
  shows "insort_key f (h x) (map h ys) = map h (insort_key f x ys)"
  by (induction ys) (simp_all add: assms)

lemma sort_key_map_commute:
  assumes "\<And>x. f (h x) = f x"
  shows "sort_key f (map h xs) = map h (sort_key f xs)"
  by (induction xs) (simp_all add: insort_key_map_commute assms)

lemma carried_cells_segmented:
  "map carried_cells (segmented g rs) = map carried_cells (sort_values rs)"
  by (rule map_segmented) (simp_all add: carried_cells_def event_cells_def aggregate_def)

lemma key_segmented:
  "map (\<lambda>r. (user_id r, timestamp r)) (segmented g rs) =
     map (\<lambda>r. (user_id r, timestamp r)) (sort_values rs)"
  by (rule map_segmented) simp_all

lemma run_all_rows:
  assumes "valid_input df"
  shows "\<exists>out h. run_all df g = Inr out \<and> rows out = segmented g (map h (rows df)) \<and>
           (\<forall>r. event_cells (h r) = event_cells r)"
proof -
  from assms have cols: "''severity'' \<in> set (columns df)" "''user_id'' \<in> set (columns df)"
      "''event_id'' \<in> set (columns df)" "''timestamp'' \<in> set (columns df)"
    and dt: "timestamp_is_datetime df" and fresh: "''user_daily_avg_events'' \<notin> set (columns df)"
    by (auto simp: valid_input_def input_columns_def)
  define h1 :: "event \<Rightarrow> event" where "h1 = (\<lambda>r. r\<lparr>severity_score := score_of (severity r)\<rparr>)"
  define d1 where "d1 = df\<lparr>columns := assign ''severity_score'' (columns df),
      rows := map h1 (rows df)\<rparr>"
  define h2 :: "event \<Rightarrow> event"
    where "h2 = (\<lambda>r. r\<lparr>user_event_count_total := transform_count (rows d1) r\<rparr>)"
  define d2 where "d2 = d1\<lparr>columns := assign ''user_event_count_total'' (columns d1),
      rows := map h2 (rows d1)\<rparr>"
  define h3 :: "event \<Rightarrow> event"
    where "h3 = (\<lambda>r. r\<lparr>user_daily_avg_events := daily_avg (rows d2) (user_id r)\<rparr>)"
  have s1: "add_severity_score df = Inr d1"
    using cols by (simp add: add_severity_score_def d1_def h1_def)
  have c1: "set (columns d1) = insert ''severity_score'' (set (columns df))"
      "timestamp_is_datetime d1"
    using dt by (auto simp: d1_def assign_def)
  have s2: "add_user_event_frequency d1 = Inr d2"
    using cols c1 by (simp add: add_user_event_frequency_def d2_def h2_def)
  have c2: "set (columns d2) = insert ''user_event_count_total'' (set (columns d1))"
      "timestamp_is_datetime d2"
    using c1 by (auto simp: d2_def assign_def)
  have "baseline_ready d2"
    using cols c1 c2 fresh by (simp add: baseline_ready_def)
  then obtain d3 where s3: "add_user_activity_baseline d2 = Inr d3"
      and r3: "rows d3 = map h3 (rows d2)"
    using add_user_activity_baseline_ready [of d2] by (auto simp: h3_def)
  have "set (columns d2) \<subseteq> set (columns d3)" "timestamp_is_datetime d3"
    using add_user_activity_baseline_columns [OF s3] c2 by auto
  then have "session_ready d3"
    using cols c1 c2 by (auto simp: session_ready_def)
  then obtain out where s4: "add_session_features d3 g = Inr out"
      and r4: "rows out = segmented g (rows d3)"
    using add_session_features_ready by blast
  have "run_all df g = Inr out"
    using s1 s2 s3 s4 by (simp add: run_all_Inr)
  moreover have "rows out = segmented g (map (\<lambda>r. h3 (h2 (h1 r))) (rows df))"
    by (simp add: r4 r3 d2_def d1_def comp_def)
  moreover have "event_cells (h3 (h2 (h1 r))) = event_cells r" for r
    by (simp add: h1_def h2_def h3_def event_cells_def)
  ultimately show ?thesis by blast
qed

lemma run_all_order:
  assumes "valid_input df"
  shows "\<exists>out. run_all df g = Inr out \<and>
           map event_cells (rows out) =
             map event_cells (sort_key (\<lambda>r. (user_id r, timestamp r)) (rows df))"
proof -
  obtain out h where out: "run_all df g = Inr out" "rows out = segmented g (map h (rows df))"
      and h: "\<And>r. event_cells (h r) = event_cells r"
    using run_all_rows [OF assms] by blast
  have key: "(user_id (h r), timestamp (h r)) = (user_id r, timestamp r)" for r
    using h [of r] by (simp add: event_cells_def)
  have "map event_cells (rows out) = map event_cells (sort_values (map h (rows df)))"
    unfolding out(2) by (rule map_segmented) (simp_all add: event_cells_def)
  also have "sort_values (map h (rows df)) = map h (sort_values (rows df))"
    unfolding sort_values_def by (rule sort_key_map_commute) (rule key)
  finally show ?thesis
    using out(1) by (auto simp: comp_def h sort_values_def)
qed

lemma segmenter_order:
  assumes "session_ready df"
  shows "\<exists>out. add_session_features df gap_minutes = Inr out \<and>
           map carried_cells (rows out) =
             map carried_cells (sort_key (\<lambda>r. (user_id r, timestamp r)) (rows df)) \<and>
           sorted (map (\<lambda>r. (user_id r, timestamp r)) (rows out)) \<and>
           mset (map carried_cells (rows out)) = mset (map carried_cells (rows df))"
proof -
  obtain out where out: "add_session_features df gap_minutes = Inr out"
      "rows out = segmented gap_minutes (rows df)"
    using add_session_features_ready [OF assms] by blast
  have cells: "map carried_cells (rows out) =
      map carried_cells (sort_key (\<lambda>r. (user_id r, timestamp r)) (rows df))"
    by (simp add: out(2) carried_cells_segmented flip: sort_values_def)
  have perm: "mset (map carried_cells (rows out)) = mset (map carried_cells (rows df))"
    by (simp only: cells mset_map mset_sort)
  have sorted: "sorted (map (\<lambda>r. (user_id r, timestamp r)) (rows out))"
    by (simp add: out(2) key_segmented sort_values_def)
  from out(1) cells sorted perm show ?thesis
    by blast
qed

text \<open>
  C2, as stated, fails: the table is sorted and then merged, and nothing puts the rows
  back. A table whose first row holds the latest event comes out with that row last.
\<close>

theorem original_order_counterexample:
  "\<not> isl (add_session_features order_example 30) \<and>
   map event_id (rows order_example) = [''e3'', ''e1'', ''e2''] \<and>
   map event_id (rows (projr (add_session_features order_example 30))) = [''e1'', ''e2'', ''e3'']"
  by code_simp

text \<open>
  C2, amended. The table returned by the Session Segmenter holds the rows of the input,
  each with its cells outside the session columns unchanged, in the order of the stable
  sort by (user_id, timestamp); the same order is that of the table returned by the whole
  core on a valid input. The original row order is not restored.
\<close>

theorem output_in_sorted_order:
  "(session_ready df \<longrightarrow>
      (\<exists>out. add_session_features df gap_minutes = Inr out \<and>
         map carried_cells (rows out) =
           map carried_cells (sort_key (\<lambda>r. (user_id r, timestamp r)) (rows df)) \<and>
         sorted (map (\<lambda>r. (user_id r, timestamp r)) (rows out)) \<and>
         mset (map carried_cells (rows out)) = mset (map carried_cells (rows df)))) \<and>
   (valid_input df \<longrightarrow>
      (\<exists>out. run_all df gap_minutes = Inr out \<and>
         map event_cells (rows out) =
           map event_cells (sort_key (\<lambda>r. (user_id r, timestamp r)) (rows df))))"
  using segmenter_order [of df gap_minutes] run_all_order [of df gap_minutes] by blast

theorem output_in_sorted_order_witness:
  "session_ready order_example \<and> valid_input order_example \<and>
   map event_id (rows order_example) = [''e3'', ''e1'', ''e2''] \<and>
   (\<exists>out. add_session_features order_example 30 = Inr out \<and>
      map event_id (rows out) = [''e1'', ''e2'', ''e3'']) \<and>
   (\<exists>out. run_all order_example 30 = Inr out \<and>
      map event_id (rows out) = [''e1'', ''e2'', ''e3''])"
proof -
  have ready: "session_ready order_example"
    by (simp add: session_ready_def order_example_def input_columns_def)
  have valid: "valid_input order_example"
    by (simp add: valid_input_def order_example_def input_columns_def mk_event_def)
  have input: "map event_id (rows order_example) = [''e3'', ''e1'', ''e2'']"
    by (simp add: order_example_def mk_event_def)
  obtain o1 where o1: "add_session_features order_example 30 = Inr o1"
    using output_in_sorted_order [of order_example 30] ready by blast
  obtain o2 where o2: "run_all order_example 30 = Inr o2"
    using output_in_sorted_order [of order_example 30] valid by blast
  have "map event_id (rows (projr (add_session_features order_example 30))) =
      [''e1'', ''e2'', ''e3'']"
    by code_simp
  then have e1: "map event_id (rows o1) = [''e1'', ''e2'', ''e3'']"
    by (simp add: o1)
  have "map event_id (rows (projr (run_all order_example 30))) = [''e1'', ''e2'', ''e3'']"
    by code_simp
  then have e2: "map event_id (rows o2) = [''e1'', ''e2'', ''e3'']"
    by (simp add: o2)
  show ?thesis
    using ready valid input o1 e1 o2 e2 by (intro conjI exI [of _ o1] exI [of _ o2]) simp_all
qed

text \<open>
  C9. The sort by (user_id, timestamp) keeps the rows of one user with one timestamp in
  the order they have in the input, and so they appear in the table that the Session
  Segmenter returns.
\<close>

theorem time_sort_is_stable:
  "filter (\<lambda>r. user_id r = u \<and> timestamp r = t) (sort_values (rows df)) =
     filter (\<lambda>r. user_id r = u \<and> timestamp r = t) (rows df)
   \<and> (session_ready df \<longrightarrow>
        (\<exists>out. add_session_features df gap_minutes = Inr out \<and>
           map carried_cells (filter (\<lambda>r. user_id r = u \<and> timestamp r = t) (rows out)) =
             map carried_cells (filter (\<lambda>r. user_id r = u \<and> timestamp r = t) (rows df))))"
proof (intro conjI impI)
  have "filter (\<lambda>r. (user_id r, timestamp r) = (u, t)) (sort_values rs) =
        filter (\<lambda>r. (user_id r, timestamp r) = (u, t)) rs" for rs
    unfolding sort_values_def by (rule sort_key_stable)
  then have stable: "filter (\<lambda>r. user_id r = u \<and> timestamp r = t) (sort_values rs) =
        filter (\<lambda>r. user_id r = u \<and> timestamp r = t) rs" for rs
    by simp
  show "filter (\<lambda>r. user_id r = u \<and> timestamp r = t) (sort_values (rows df)) =
        filter (\<lambda>r. user_id r = u \<and> timestamp r = t) (rows df)"
    by (rule stable)
  assume "session_ready df"
  then obtain out where out: "add_session_features df gap_minutes = Inr out"
      "rows out = segmented gap_minutes (rows df)"
    using add_session_features_ready by blast
  have "map (\<lambda>r. (carried_cells r, user_id r, timestamp r)) (rows out) =
        map (\<lambda>r. (carried_cells r, user_id r, timestamp r)) (sort_values (rows df))"
    unfolding out(2)
    by (rule map_segmented) (simp_all add: carried_cells_def event_cells_def aggregate_def)
  then have "map fst (filter (\<lambda>p. fst (snd p) = u \<and> snd (snd p) = t)
                 (map (\<lambda>r. (carried_cells r, user_id r, timestamp r)) (rows out))) =
             map fst (filter (\<lambda>p. fst (snd p) = u \<and> snd (snd p) = t)
                 (map (\<lambda>r. (carried_cells r, user_id r, timestamp r)) (sort_values (rows df))))"
    by simp
  then have "map carried_cells (filter (\<lambda>r. user_id r = u \<and> timestamp r = t) (rows out)) =
             map carried_cells (filter (\<lambda>r. user_id r = u \<and> timestamp r = t) (sort_values (rows df)))"
    by (simp add: filter_map comp_def)
  with stable [of "rows df"] out(1)
  show "\<exists>out. add_session_features df gap_minutes = Inr out \<and>
           map carried_cells (filter (\<lambda>r. user_id r = u \<and> timestamp r = t) (rows out)) =
             map carried_cells (filter (\<lambda>r. user_id r = u \<and> timestamp r = t) (rows df))"
    by simp
qed

theorem time_sort_is_stable_witness:
  "session_ready tie_example \<and>
   map event_id (filter (\<lambda>r. user_id r = ''u'' \<and> timestamp r = 100) (rows tie_example)) =
     [''x2'', ''x1''] \<and>
   (\<exists>out. add_session_features tie_example 30 = Inr out \<and>
      map event_id (rows out) = [''x0'', ''x2'', ''x1''] \<and>
      map carried_cells (filter (\<lambda>r. user_id r = ''u'' \<and> timestamp r = 100) (rows out)) =
        map carried_cells (filter (\<lambda>r. user_id r = ''u'' \<and> timestamp r = 100) (rows tie_example)))"
proof -
  have ready: "session_ready tie_example"
    by (simp add: session_ready_def tie_example_def input_columns_def)
  have input: "map event_id (filter (\<lambda>r. user_id r = ''u'' \<and> timestamp r = 100) (rows tie_example)) =
     [''x2'', ''x1'']"
    by (simp add: tie_example_def mk_event_def)
  obtain out where out: "add_session_features tie_example 30 = Inr out"
    and same: "map carried_cells (filter (\<lambda>r. user_id r = ''u'' \<and> timestamp r = 100) (rows out)) =
        map carried_cells (filter (\<lambda>r. user_id r = ''u'' \<and> timestamp r = 100) (rows tie_example))"
    using time_sort_is_stable [of "''u''" 100 tie_example 30] ready by blast
  have "map event_id (rows (projr (add_session_features tie_example 30))) = [''x0'', ''x2'', ''x1'']"
    by code_simp
  then have ids: "map event_id (rows out) = [''x0'', ''x2'', ''x1'']"
    by (simp add: out)
  show ?thesis
    using ready input out ids same by (intro conjI exI [of _ out]) simp_all
qed

section \<open>The core keeps the rows\<close>








section \<open>Session aggregates\<close>

lemma group_of_segmented:
  "group_of user_session (segmented g rs) k =
     map (aggregate (with_session_id g (sort_values rs)))
       (group_of user_session (with_session_id g (sort_values rs)) k)"
  unfolding segmented_def by (rule group_of_map) simp

text \<open>
  C8. In the table that the session function returns, every row carries as
  \<open>session_event_count\<close> the number of rows of its (user_id, session_id) group and as
  \<open>session_duration_seconds\<close> the latest minus the earliest timestamp of the group, in
  seconds; the duration is not negative, both values are the same on all rows of the group,
  and a group of one row has duration 0.
\<close>

theorem session_aggregates:
  assumes "session_ready df"
  shows "\<exists>out. add_session_features df gap_minutes = Inr out \<and>
           (\<forall>r \<in> set (rows out).
              let grp = group_of user_session (rows out) (user_session r);
                  sec = total_seconds (Max (set (map timestamp grp)) - Min (set (map timestamp grp)))
              in session_event_count r = Some (int (length grp)) \<and>
                 session_duration_seconds r = Some sec \<and> 0 \<le> sec \<and>
                 (\<forall>s \<in> set grp. session_event_count s = session_event_count r \<and>
                                  session_duration_seconds s = session_duration_seconds r) \<and>
                 (length grp = 1 \<longrightarrow> session_duration_seconds r = Some 0))"
proof -
  obtain out where out: "add_session_features df gap_minutes = Inr out"
      "rows out = segmented gap_minutes (rows df)"
    using add_session_features_ready [OF assms] by blast
  define W where "W = with_session_id gap_minutes (sort_values (rows df))"
  have rows: "rows out = map (aggregate W) W"
    by (simp add: out(2) segmented_def W_def)
  have grp: "group_of user_session (rows out) k = map (aggregate W) (group_of user_session W k)" for k
    by (simp add: out(2) group_of_segmented W_def)
  have times: "map timestamp (group_of user_session (rows out) k) =
      map timestamp (group_of user_session W k)" for k
    by (simp add: grp comp_def)
  have fields: "session_event_count r =
        Some (int (length (group_of user_session (rows out) (user_session r))))"
      "session_duration_seconds r =
        Some (total_seconds
               (Max (set (map timestamp (group_of user_session (rows out) (user_session r)))) -
                Min (set (map timestamp (group_of user_session (rows out) (user_session r))))))"
      "r \<in> set (group_of user_session (rows out) (user_session r))"
    if "r \<in> set (rows out)" for r
  proof -
    from that obtain w where w: "w \<in> set W" "r = aggregate W w"
      by (auto simp: rows)
    show "session_event_count r =
        Some (int (length (group_of user_session (rows out) (user_session r))))"
      by (simp add: w(2) grp) (simp add: aggregate_def)
    show "session_duration_seconds r =
        Some (total_seconds
               (Max (set (map timestamp (group_of user_session (rows out) (user_session r)))) -
                Min (set (map timestamp (group_of user_session (rows out) (user_session r))))))"
      unfolding times by (simp add: w(2)) (simp add: aggregate_def session_span_def)
    show "r \<in> set (group_of user_session (rows out) (user_session r))"
      using that by (simp add: group_of_def)
  qed
  have "let grp = group_of user_session (rows out) (user_session r);
            sec = total_seconds (Max (set (map timestamp grp)) - Min (set (map timestamp grp)))
        in session_event_count r = Some (int (length grp)) \<and>
           session_duration_seconds r = Some sec \<and> 0 \<le> sec \<and>
           (\<forall>s \<in> set grp. session_event_count s = session_event_count r \<and>
                            session_duration_seconds s = session_duration_seconds r) \<and>
           (length grp = 1 \<longrightarrow> session_duration_seconds r = Some 0)"
    if r: "r \<in> set (rows out)" for r
  proof -
    define grp where "grp = group_of user_session (rows out) (user_session r)"
    define T where "T = set (map timestamp grp)"
    have mem: "r \<in> set grp"
      using fields(3) [OF r] by (simp add: grp_def)
    then have T: "finite T" "T \<noteq> {}"
      by (auto simp: T_def)
    then have le: "Min T \<le> Max T"
      by simp
    have same: "session_event_count s = session_event_count r \<and>
                session_duration_seconds s = session_duration_seconds r" if "s \<in> set grp" for s
    proof -
      from that have "s \<in> set (rows out)" "user_session s = user_session r"
        by (auto simp: grp_def group_of_def)
      then show ?thesis
        using fields(1,2) [of s] fields(1,2) [OF r] by simp
    qed
    have single: "Max T - Min T = 0" if "length grp = 1"
    proof -
      from that obtain x where "grp = [x]"
        by (cases grp) auto
      then show ?thesis by (simp add: T_def)
    qed
    show ?thesis
      unfolding Let_def grp_def [symmetric] T_def [symmetric]
      using fields(1,2) [OF r] le same single
      by (auto simp: grp_def T_def total_seconds_nonneg)
  qed
  with out(1) show ?thesis by blast
qed

theorem session_aggregates_witness:
  "session_ready scenario \<and>
   (\<exists>out. add_session_features scenario 30 = Inr out \<and>
      map session_id (rows out) = [1, 1, 2] \<and>
      map session_event_count (rows out) = [Some 2, Some 2, Some 1] \<and>
      map session_duration_seconds (rows out) = [Some 1200, Some 1200, Some 0])"
proof -
  have ready: "session_ready scenario"
    by (simp add: session_ready_def scenario_def input_columns_def)
  obtain out where out: "add_session_features scenario 30 = Inr out"
    using session_aggregates [OF ready, of 30] by blast
  have "map session_id (rows (projr (add_session_features scenario 30))) = [1, 1, 2]"
    by code_simp
  then have ids: "map session_id (rows out) = [1, 1, 2]"
    by (simp add: out)
  have "map session_event_count (rows (projr (add_session_features scenario 30))) =
      [Some 2, Some 2, Some 1]"
    by code_simp
  then have cnt: "map session_event_count (rows out) = [Some 2, Some 2, Some 1]"
    by (simp add: out)
  have "map session_duration_seconds (rows (projr (add_session_features scenario 30))) =
      [Some 1200, Some 1200, Some 0]"
    by code_simp
  then have dur: "map session_duration_seconds (rows out) = [Some 1200, Some 1200, Some 0]"
    by (simp add: out)
  show ?thesis
    using ready out ids cnt dur by (intro conjI exI [of _ out]) simp_all
qed

section \<open>Daily average\<close>

lemma sum_length_filter:
  "finite A \<Longrightarrow> f ` set xs \<subseteq> A \<Longrightarrow>
     (\<Sum>d \<in> A. length (filter (\<lambda>x. f x = d) xs)) = length xs"
proof (induction xs)
  case Nil
  then show ?case by simp
next
  case (Cons x xs)
  have "(\<Sum>d \<in> A. length (filter (\<lambda>y. f y = d) (x # xs))) =
        (\<Sum>d \<in> A. (if f x = d then 1 else 0) + length (filter (\<lambda>y. f y = d) xs))"
    by (rule sum.cong) auto
  also have "\<dots> = (\<Sum>d \<in> A. if f x = d then 1 else 0) + (\<Sum>d \<in> A. length (filter (\<lambda>y. f y = d) xs))"
    by (simp add: sum.distrib)
  also have "\<dots> = 1 + length xs"
    using Cons by simp
  finally show ?case by simp
qed

lemma daily_avg_mean:
  fixes rs :: "event list" and u :: string
  defines "mine \<equiv> group_of user_id rs u"
  defines "days \<equiv> set (map (\<lambda>x. floor_D (timestamp x)) mine)"
  defines "per_day \<equiv> \<lambda>d. length (filter (\<lambda>x. floor_D (timestamp x) = d) mine)"
  assumes "mine \<noteq> []"
  shows "daily_avg rs u = Some (of_nat (\<Sum>d \<in> days. per_day d) / of_nat (card days))"
proof -
  define Ku where "Ku = filter (\<lambda>k. fst k = u) (group_keys user_date rs)"
  define sizes where "sizes = map (\<lambda>k. length (group_of user_date rs k)) Ku"
  have avg: "daily_avg rs u = mean sizes"
    by (simp add: daily_avg_def daily_counts_def group_of_def [of fst] filter_map comp_def
          sizes_def Ku_def)
  have dist: "distinct Ku"
    by (simp add: Ku_def distinct_group_keys)
  have set_Ku: "set Ku = Pair u ` days"
    by (auto simp: Ku_def set_group_keys days_def mine_def group_of_def user_date_def image_iff)
  have cnt: "length (group_of user_date rs (u, d)) = per_day d" for d
    by (simp add: per_day_def mine_def group_of_def user_date_def conj_commute)
  have "sum_list sizes = (\<Sum>k \<in> set Ku. length (group_of user_date rs k))"
    unfolding sizes_def using dist by (simp add: sum_list_distinct_conv_sum_set)
  also have "\<dots> = (\<Sum>d \<in> days. length (group_of user_date rs (u, d)))"
    unfolding set_Ku by (subst sum.reindex) (auto simp: inj_on_def)
  finally have sum: "sum_list sizes = (\<Sum>d \<in> days. per_day d)"
    by (simp add: cnt)
  have "length sizes = card (set Ku)"
    by (simp add: sizes_def distinct_card [OF dist])
  also have "\<dots> = card days"
    unfolding set_Ku by (rule card_image) (simp add: inj_on_def)
  finally have len: "length sizes = card days" .
  have "days \<noteq> {}"
    using assms(4) by (simp add: days_def)
  then have "sizes \<noteq> []"
    using len by (auto simp: days_def)
  then show ?thesis
    by (simp add: avg mean_def sum len)
qed

text \<open>
  C6. In the table that the daily-rate stage returns, every row of a user carries as
  \<open>user_daily_avg_events\<close> the sum of the user's per-day event counts over the days on
  which the user has an event, divided by the number of these days (days without an event
  do not count); the per-day counts add up to the number of the user's rows, and all rows
  of the user carry the same value. A user with a single active day gets that day's count,
  and a user with two active days of 3 events and 1 event gets 2.
\<close>

theorem daily_average_over_active_days:
  assumes "baseline_ready df"
  shows "\<exists>out. add_user_activity_baseline df = Inr out \<and>
           (\<forall>r \<in> set (rows out).
              let mine = group_of user_id (rows out) (user_id r);
                  days = set (map (\<lambda>x. floor_D (timestamp x)) mine);
                  per_day = (\<lambda>d. length (filter (\<lambda>x. floor_D (timestamp x) = d) mine))
              in user_daily_avg_events r =
                   Some (of_nat (\<Sum>d \<in> days. per_day d) / of_nat (card days)) \<and>
                 (\<Sum>d \<in> days. per_day d) = length mine \<and>
                 (\<forall>s \<in> set mine. user_daily_avg_events s = user_daily_avg_events r) \<and>
                 (\<forall>d. days = {d} \<longrightarrow> user_daily_avg_events r = Some (of_nat (per_day d))) \<and>
                 (\<forall>d1 d2. days = {d1, d2} \<and> d1 \<noteq> d2 \<and> per_day d1 = 3 \<and> per_day d2 = 1
                    \<longrightarrow> user_daily_avg_events r = Some 2))"
proof -
  obtain out where out: "add_user_activity_baseline df = Inr out"
      "rows out = map (\<lambda>r. r\<lparr>user_daily_avg_events := daily_avg (rows df) (user_id r)\<rparr>) (rows df)"
    using add_user_activity_baseline_ready [OF assms] by blast
  define upd :: "event \<Rightarrow> event"
    where "upd = (\<lambda>r. r\<lparr>user_daily_avg_events := daily_avg (rows df) (user_id r)\<rparr>)"
  have rows: "rows out = map upd (rows df)"
    by (simp add: out(2) upd_def)
  have grp: "group_of user_id (rows out) u = map upd (group_of user_id (rows df) u)" for u
    unfolding rows by (rule group_of_map) (simp add: upd_def)
  have days: "map (\<lambda>x. floor_D (timestamp x)) (group_of user_id (rows out) u) =
      map (\<lambda>x. floor_D (timestamp x)) (group_of user_id (rows df) u)" for u
    by (simp add: grp comp_def upd_def)
  have cnt_eq: "length (filter (\<lambda>x. floor_D (timestamp x) = d) (group_of user_id (rows out) u)) =
      length (filter (\<lambda>x. floor_D (timestamp x) = d) (group_of user_id (rows df) u))" for u d
    by (simp add: grp filter_map comp_def upd_def)
  have avg: "user_daily_avg_events r = daily_avg (rows df) (user_id r)" if "r \<in> set (rows out)" for r
    using that by (auto simp: rows upd_def)
  have "let mine = group_of user_id (rows out) (user_id r);
            days = set (map (\<lambda>x. floor_D (timestamp x)) mine);
            per_day = (\<lambda>d. length (filter (\<lambda>x. floor_D (timestamp x) = d) mine))
        in user_daily_avg_events r =
             Some (of_nat (\<Sum>d \<in> days. per_day d) / of_nat (card days)) \<and>
           (\<Sum>d \<in> days. per_day d) = length mine \<and>
           (\<forall>s \<in> set mine. user_daily_avg_events s = user_daily_avg_events r) \<and>
           (\<forall>d. days = {d} \<longrightarrow> user_daily_avg_events r = Some (of_nat (per_day d))) \<and>
           (\<forall>d1 d2. days = {d1, d2} \<and> d1 \<noteq> d2 \<and> per_day d1 = 3 \<and> per_day d2 = 1
              \<longrightarrow> user_daily_avg_events r = Some 2)"
    if r: "r \<in> set (rows out)" for r
  proof -
    define mine where "mine = group_of user_id (rows out) (user_id r)"
    define days where "days = set (map (\<lambda>x. floor_D (timestamp x)) mine)"
    define per_day where "per_day = (\<lambda>d. length (filter (\<lambda>x. floor_D (timestamp x) = d) mine))"
    have "r \<in> set mine"
      using r by (simp add: mine_def group_of_def)
    then have "group_of user_id (rows df) (user_id r) \<noteq> []"
      by (auto simp: mine_def grp)
    from daily_avg_mean [OF this]
    have mean: "user_daily_avg_events r = Some (of_nat (\<Sum>d \<in> days. per_day d) / of_nat (card days))"
      by (simp add: avg [OF r] days_def per_day_def mine_def days cnt_eq)
    have total: "(\<Sum>d \<in> days. per_day d) = length mine"
      unfolding per_day_def days_def by (rule sum_length_filter) simp_all
    have same: "\<forall>s \<in> set mine. user_daily_avg_events s = user_daily_avg_events r"
    proof
      fix s assume "s \<in> set mine"
      then have "s \<in> set (rows out)" "user_id s = user_id r"
        by (auto simp: mine_def group_of_def)
      then show "user_daily_avg_events s = user_daily_avg_events r"
        using avg [of s] avg [OF r] by simp
    qed
    have one: "\<forall>d. days = {d} \<longrightarrow> user_daily_avg_events r = Some (of_nat (per_day d))"
      using mean by simp
    have two: "\<forall>d1 d2. days = {d1, d2} \<and> d1 \<noteq> d2 \<and> per_day d1 = 3 \<and> per_day d2 = 1
                 \<longrightarrow> user_daily_avg_events r = Some 2"
      using mean by simp
    show ?thesis
      unfolding Let_def mine_def [symmetric] days_def [symmetric] per_day_def [symmetric]
      by (intro conjI)
        (fact mean, fact total, fact same, rule one [unfolded per_day_def],
         rule two [unfolded per_day_def])
  qed
  with out(1) show ?thesis by blast
qed

theorem daily_average_over_active_days_witness:
  "baseline_ready daily_example \<and>
   (\<exists>out. add_user_activity_baseline daily_example = Inr out \<and>
      map user_id (rows out) = [''u1'', ''u1'', ''u2'', ''u1'', ''u1'', ''u2'', ''u2''] \<and>
      map user_daily_avg_events (rows out) = [Some 2, Some 2, Some 3, Some 2, Some 2, Some 3, Some 3])"
proof -
  have ready: "baseline_ready daily_example"
    by (simp add: baseline_ready_def daily_example_def input_columns_def)
  obtain out where out: "add_user_activity_baseline daily_example = Inr out"
    using daily_average_over_active_days [OF ready] by blast
  have "map user_id (rows (projr (add_user_activity_baseline daily_example))) =
      [''u1'', ''u1'', ''u2'', ''u1'', ''u1'', ''u2'', ''u2'']"
    by code_simp
  then have users: "map user_id (rows out) = [''u1'', ''u1'', ''u2'', ''u1'', ''u1'', ''u2'', ''u2'']"
    by (simp add: out)
  have "map user_daily_avg_events (rows (projr (add_user_activity_baseline daily_example))) =
      [Some 2, Some 2, Some 3, Some 2, Some 2, Some 3, Some 3]"
    by code_simp
  then have avg: "map user_daily_avg_events (rows out) =
      [Some 2, Some 2, Some 3, Some 2, Some 2, Some 3, Some 3]"
    by (simp add: out)
  show ?thesis
    using ready out users avg by (intro conjI exI [of _ out]) simp_all
qed

end
